theory Spec2Isabelle
  imports Main
begin

section \<open>Go values\<close>

text \<open>
  Go's \<open>int\<close> is a 64-bit two's complement integer on the usual targets. It is modelled as
  \<open>int\<close> with the wrap-around written out: \<open>go_add\<close> and \<open>go_sub\<close> are Go's \<open>+\<close> and \<open>-\<close>.
  Lengths of strings and slices are at most \<open>2^63 - 1\<close> in Go, so arithmetic that stays
  between \<open>-1\<close> and a length (a loop index, the dot after an insertion) cannot wrap and is
  written without \<open>wrap64\<close>.
\<close>

definition wrap64 :: "int \<Rightarrow> int" where
  "wrap64 x = (x + 2 ^ 63) mod 2 ^ 64 - 2 ^ 63"

definition go_add :: "int \<Rightarrow> int \<Rightarrow> int" where
  "go_add a b = wrap64 (a + b)"

definition go_sub :: "int \<Rightarrow> int \<Rightarrow> int" where
  "go_sub a b = wrap64 (a - b)"

text \<open>The values of Go's \<open>int\<close>; on them \<open>wrap64\<close> is the identity.\<close>

definition go_int :: "int \<Rightarrow> bool" where
  "go_int x = (- (2 ^ 63) \<le> x \<and> x < 2 ^ 63)"

text \<open>A run-time panic of Go: the function does not return, the panic unwinds the stack.\<close>

datatype go_panic = IndexOutOfRange | SliceBoundsOutOfRange | NilDereference

text \<open>
  Go strings are byte sequences and \<open>len\<close> counts bytes, as \<open>length\<close> does on \<open>string\<close>.
  \<open>strings.HasPrefix(s, prefix)\<close> is
  \<open>len(s) >= len(prefix) && s[0:len(prefix)] == prefix\<close>.
\<close>

definition HasPrefix :: "string \<Rightarrow> string \<Rightarrow> bool" where
  "HasPrefix s p = (length p \<le> length s \<and> take (length p) s = p)"

text \<open>
  A Go \<open>error\<close> value that is not nil (nil is \<open>None\<close> of \<open>error option\<close>): a message, or
  two errors joined by \<open>CatError\<close>. \<open>err.Error()\<close> is \<open>errorString\<close>.
\<close>

datatype error = ErrMsg string | ErrCat error error

fun errorString :: "error \<Rightarrow> string" where
  "errorString (ErrMsg s) = s"
| "errorString (ErrCat a b) = errorString a @ ''; '' @ errorString b"

text \<open>
  Modelled from the spec: \<open>errutil.CatError\<close> is not among the sources. The spec says that
  the errors of the teardown "are collected, not fatal" and "attached to the overall
  result": \<open>CatError\<close> keeps both errors, and returns the other one when one is nil.
\<close>

fun CatError :: "error option \<Rightarrow> error option \<Rightarrow> error option" where
  "CatError None more = more"
| "CatError (Some e) None = Some e"
| "CatError (Some e) (Some m) = Some (ErrCat e m)"

section \<open>The data of the editor\<close>

datatype bufferMode = modeInsert | modeCommand | modeCompletion | modeNavigation | modeHistory

text \<open>\<open>LineRead\<close>, the result of \<open>ReadLine\<close>. A nil \<open>Err\<close> is \<open>None\<close>.\<close>

record LineRead =
  Line :: string
  EOF :: bool
  Err :: "error option"

definition LineRead_zero :: LineRead where
  "LineRead_zero = \<lparr>Line = '''', EOF = False, Err = None\<rparr>"

text \<open>
  The history cursor, \<open>type history struct\<close>. Its field \<open>line\<close> is \<open>hline\<close> here, \<open>line\<close>
  being the buffer of the editing state.
\<close>

record history =
  current :: int
  prefix :: string
  hline :: string

definition history_zero :: history where
  "history_zero = \<lparr>current = 0, prefix = '''', hline = ''''\<rparr>"

text \<open>
  Modelled from the spec: the declaration of the completion overlay is not among the
  sources. The spec has "an ordered list of candidates with a selectable index";
  \<open>acceptCompletion\<close> reads \<open>c.current\<close> (\<open>comp_current\<close> here), \<open>c.candidates\<close> and
  \<open>candidates[i].source.text\<close> (\<open>stext\<close> here). The candidates are taken to be values: none
  is a nil pointer.
\<close>

record styled =
  stext :: string
  style :: string

record candidate =
  source :: styled
  menu :: styled

record completion =
  candidates :: "candidate list"
  comp_current :: int

text \<open>
  Modelled from the spec: the declaration of the navigation overlay is not among the
  sources; of this overlay the sources observe only whether it is there.
\<close>

datatype navigation = Navigation nat

text \<open>
  Modelled from the spec: the declarations of \<open>Key\<close>, \<open>Token\<close> and \<open>action\<close> are not among the
  sources. A key is a rune with modifiers. A token has the four fields of the literal
  \<open>Token{ParserError, src, nil, ""}\<close>, the third being a syntax node: an interface value, nil
  or a node with \<open>Begin()\<close> and \<open>End()\<close>. An action is the pending effect that a key binding
  leaves in \<open>nextAction\<close>, "with one of three outcomes"; the zero value \<open>action{}\<close> is
  \<open>noAction\<close> with the zero \<open>LineRead\<close>.
\<close>

datatype Key = Key (Rune: int) (Mod: int)

definition Key_zero :: Key where
  "Key_zero = Key 0 0"

record Node =
  Begin :: int
  End :: int

datatype TokenType = ParserError | OtherToken nat

record Token =
  Typ :: TokenType
  Val :: string
  Node :: "Node option"
  MoreStyle :: string

datatype actionType = noAction | reprocessKey | exitReadLine

record action =
  actionType :: actionType
  returnValue :: LineRead

definition action_zero :: action where
  "action_zero = \<lparr>actionType = noAction, returnValue = LineRead_zero\<rparr>"

text \<open>
  Modelled from the spec: \<open>sys.Termios\<close> is not among the sources. These are the terminal's
  mode settings: canonical mode, echo, and the minimum count and the timeout of a read,
  which \<open>setupTerminal\<close> sets ("non-canonical, echo-off, one-byte-minimum blocking read"),
  and the rest of the structure.
\<close>

record Termios =
  ICanon :: bool
  Echo :: bool
  VMin :: int
  VTime :: int
  otherFlags :: int

text \<open>
  \<open>type editorState struct\<close>. The pointers \<open>savedTermios\<close>, \<open>completion\<close> and
  \<open>navigation\<close> are options (nil is \<open>None\<close>); a nil slice is the empty list and a nil map
  the empty map.
\<close>

record editorState =
  active :: bool
  savedTermios :: "Termios option"
  tokens :: "Token list"
  prompt :: string
  rprompt :: string
  line :: string
  dot :: int
  tips :: "string list"
  mode :: bufferMode
  completion :: "completion option"
  completionLines :: int
  navigation :: "navigation option"
  history :: history
  isExternal :: "string \<rightharpoonup> bool"
  lastKey :: Key
  nextAction :: action

text \<open>The zero value \<open>editorState{}\<close>.\<close>

definition editorState_zero :: editorState where
  "editorState_zero =
     \<lparr>active = False, savedTermios = None, tokens = [], prompt = '''', rprompt = '''',
      line = '''', dot = 0, tips = [], mode = modeInsert, completion = None,
      completionLines = 0, navigation = None, history = history_zero,
      isExternal = Map.empty, lastKey = Key_zero, nextAction = action_zero\<rparr>"

text \<open>
  Modelled from the spec: the persistent store (\<open>*store.Store\<close>) is a collaborator whose
  code is not among the sources, with the operations \<open>nextSequenceId\<close>, \<open>append\<close>,
  \<open>findLastMatching\<close> and \<open>findFirstMatching\<close>. Its answers to the queries are taken as they
  come (\<open>Inl\<close> is a non-nil \<open>err\<close>), and the lines handed to \<open>AddCmd\<close> are recorded in call
  order.
\<close>

datatype store_error = ErrNoMatchingCmd | StoreFailure string

record store =
  NextCmdSeq :: "store_error + int"
  LastCmd :: "int \<Rightarrow> string \<Rightarrow> store_error + (int \<times> string)"
  FirstCmd :: "int \<Rightarrow> string \<Rightarrow> store_error + (int \<times> string)"
  added :: "string list"

definition AddCmd :: "string \<Rightarrow> store \<Rightarrow> store" where
  "AddCmd l s = s\<lparr>added := added s @ [l]\<rparr>"

text \<open>
  What the editor does to the terminal, its reader and its writer, in the order it does
  it. Whether an operation fails is decided by the environment (see \<open>env\<close> below).
\<close>

datatype effect =
    TermGetAttr
  | TermSetAttr "Termios option"
  | TermWrite string
  | WriterResetOldBuf
  | WriterRefresh editorState
  | ReaderRun
  | ReaderQuit

text \<open>
  \<open>type Editor struct\<close>. \<open>file\<close>, \<open>writer\<close> and \<open>reader\<close> are handles on the one
  terminal: the field \<open>term_file\<close> holds the operations performed through them so far. The
  signal channel is part of the events \<open>ReadLine\<close> consumes, the evaluator part of the
  environment. A nil \<open>store\<close> is \<open>None\<close>. The embedded \<open>editorState\<close> is a field.
\<close>

record Editor =
  term_file :: "effect list"
  histories :: "string list"
  store :: "store option"
  cmdSeq :: int
  editorState :: editorState

text \<open>
  \<open>NewEditor\<close>: the baseline \<open>cmdSeq\<close> is the store's next sequence number, or \<open>-1\<close>
  without a store or when the store reports an error.
\<close>

definition NewEditor :: "store option \<Rightarrow> Editor" where
  "NewEditor st =
     (let seq = (case st of
                   None \<Rightarrow> - 1
                 | Some s \<Rightarrow> (case NextCmdSeq s of Inr n \<Rightarrow> n | Inl err \<Rightarrow> - 1))
      in \<lparr>term_file = [], histories = [], store = st, cmdSeq = seq,
          editorState = editorState_zero\<rparr>)"

definition set_editorState :: "editorState \<Rightarrow> Editor \<Rightarrow> Editor" where
  "set_editorState s ed = ed\<lparr>editorState := s\<rparr>"

definition set_history :: "history \<Rightarrow> Editor \<Rightarrow> Editor" where
  "set_history h ed = ed\<lparr>editorState := (editorState ed)\<lparr>history := h\<rparr>\<rparr>"

definition set_tokens :: "Token list \<Rightarrow> Editor \<Rightarrow> Editor" where
  "set_tokens ts ed = ed\<lparr>editorState := (editorState ed)\<lparr>tokens := ts\<rparr>\<rparr>"

section \<open>History\<close>

definition jump :: "int \<Rightarrow> string \<Rightarrow> history \<Rightarrow> history" where
  "jump i l h = h\<lparr>current := i, hline := l\<rparr>"

definition appendHistory :: "string \<Rightarrow> Editor \<Rightarrow> Editor" where
  "appendHistory l ed =
     (let ed1 = ed\<lparr>histories := histories ed @ [l]\<rparr>
      in case store ed1 of
           Some s \<Rightarrow> ed1\<lparr>store := Some (AddCmd l s)\<rparr>
         | None \<Rightarrow> ed1)"

text \<open>
  The loop of \<open>lastHistory\<close>, \<open>for i := upto - 1; i >= 0; i--\<close>, from the index \<open>i\<close>.
  \<open>histories[i]\<close> panics when \<open>i\<close> is not below the length.
\<close>

function lastHistory_loop :: "string list \<Rightarrow> int \<Rightarrow> string \<Rightarrow> go_panic + (int \<times> string)" where
  "lastHistory_loop hs i p =
     (if i \<ge> 0 then
        (if i < int (length hs) then
           (if HasPrefix (hs ! nat i) p then Inr (i, hs ! nat i)
            else lastHistory_loop hs (i - 1) p)
         else Inl IndexOutOfRange)
      else Inr (- 1, ''''))"
  by pat_completeness auto
termination
  by (relation "measure (\<lambda>(hs, i, p). nat (i + 1))") auto

definition lastHistory :: "string list \<Rightarrow> int \<Rightarrow> string \<Rightarrow> go_panic + (int \<times> string)" where
  "lastHistory hs up_to p = lastHistory_loop hs (go_sub up_to 1) p"

text \<open>
  The loop of \<open>firstHistory\<close>, \<open>for i := from; i < len(histories); i++\<close>, from the index
  \<open>i\<close>. A negative \<open>i\<close> is below the length, and \<open>histories[i]\<close> panics.
\<close>

function firstHistory_loop :: "string list \<Rightarrow> int \<Rightarrow> string \<Rightarrow> go_panic + (int \<times> string)" where
  "firstHistory_loop hs i p =
     (if i < int (length hs) then
        (if i \<ge> 0 then
           (if HasPrefix (hs ! nat i) p then Inr (i, hs ! nat i)
            else firstHistory_loop hs (i + 1) p)
         else Inl IndexOutOfRange)
      else Inr (- 1, ''''))"
  by pat_completeness auto
termination
  by (relation "measure (\<lambda>(hs, i, p). nat (int (length hs) - i))") auto

definition firstHistory :: "string list \<Rightarrow> int \<Rightarrow> string \<Rightarrow> go_panic + (int \<times> string)" where
  "firstHistory hs from p = firstHistory_loop hs from p"

text \<open>
  The second half of \<open>prevHistory\<close>, from \<open>if ed.store != nil\<close>: the persistent history.
  \<open>min\<close> and \<open>max\<close> are the package's helpers on \<open>int\<close>.
\<close>

definition prevHistory_persistent :: "Editor \<Rightarrow> bool \<times> Editor" where
  "prevHistory_persistent ed =
     (let h = history (editorState ed) in
      case store ed of
        Some s \<Rightarrow>
          (let up_to = go_add (cmdSeq ed) (min 0 (current h)) in
           case LastCmd s up_to (prefix h) of
             Inr (i, l) \<Rightarrow> (True, set_history (jump (go_sub i (cmdSeq ed)) l h) ed)
           | Inl err \<Rightarrow> (False, ed))
      | None \<Rightarrow> (False, ed))"

definition prevHistory :: "Editor \<Rightarrow> go_panic + (bool \<times> Editor)" where
  "prevHistory ed =
     (let h = history (editorState ed) in
      if current h > 0 then
        (case lastHistory (histories ed) (current h) (prefix h) of
           Inl pn \<Rightarrow> Inl pn
         | Inr (i, l) \<Rightarrow>
             if i \<ge> 0 then Inr (True, set_history (jump i l h) ed)
             else Inr (prevHistory_persistent ed))
      else Inr (prevHistory_persistent ed))"

text \<open>
  The second half of \<open>nextHistory\<close>, from \<open>from := max(0, ed.history.current+1)\<close>: the
  session history.
\<close>

definition nextHistory_session :: "Editor \<Rightarrow> go_panic + (bool \<times> Editor)" where
  "nextHistory_session ed =
     (let h = history (editorState ed);
          from = max 0 (go_add (current h) 1)
      in case firstHistory (histories ed) from (prefix h) of
           Inl pn \<Rightarrow> Inl pn
         | Inr (i, l) \<Rightarrow>
             if i \<ge> 0 then Inr (True, set_history (jump i l h) ed)
             else Inr (False, ed))"

definition nextHistory :: "Editor \<Rightarrow> go_panic + (bool \<times> Editor)" where
  "nextHistory ed =
     (let h = history (editorState ed) in
      case store ed of
        Some s \<Rightarrow>
          if current h < - 1 then
            (let from = go_add (go_add (cmdSeq ed) (current h)) 1 in
             case FirstCmd s from (prefix h) of
               Inr (i, l) \<Rightarrow> Inr (True, set_history (jump (go_sub i (cmdSeq ed)) l h) ed)
             | Inl err \<Rightarrow> nextHistory_session ed)
          else nextHistory_session ed
      | None \<Rightarrow> nextHistory_session ed)"

section \<open>Editing\<close>

definition pushTip :: "string \<Rightarrow> Editor \<Rightarrow> Editor" where
  "pushTip tip ed = ed\<lparr>editorState := (editorState ed)\<lparr>tips := tips (editorState ed) @ [tip]\<rparr>\<rparr>"

text \<open>
  \<open>insertAtDot\<close>: the slices \<open>ed.line[:ed.dot]\<close> and \<open>ed.line[ed.dot:]\<close> panic unless
  \<open>0 <= dot <= len(line)\<close>, before anything is assigned.
\<close>

definition insertAtDot :: "string \<Rightarrow> Editor \<Rightarrow> go_panic + Editor" where
  "insertAtDot t ed =
     (let s = editorState ed in
      if 0 \<le> dot s \<and> dot s \<le> int (length (line s)) then
        Inr (ed\<lparr>editorState := s
          \<lparr>line := take (nat (dot s)) (line s) @ t @ drop (nat (dot s)) (line s),
           dot := dot s + int (length t)\<rparr>\<rparr>)
      else Inl SliceBoundsOutOfRange)"

text \<open>\<open>acceptCompletion\<close>: \<open>c.current\<close> on a nil \<open>ed.completion\<close> panics.\<close>

definition acceptCompletion :: "Editor \<Rightarrow> go_panic + Editor" where
  "acceptCompletion ed =
     (case completion (editorState ed) of
        None \<Rightarrow> Inl NilDereference
      | Some c \<Rightarrow>
          (case (if 0 \<le> comp_current c \<and> comp_current c < int (length (candidates c))
                 then insertAtDot (stext (source (candidates c ! nat (comp_current c)))) ed
                 else Inr ed) of
             Inl pn \<Rightarrow> Inl pn
           | Inr ed1 \<Rightarrow>
               Inr (ed1\<lparr>editorState := (editorState ed1)\<lparr>completion := None, mode := modeInsert\<rparr>\<rparr>)))"

definition acceptHistory :: "Editor \<Rightarrow> Editor" where
  "acceptHistory ed =
     (let s = editorState ed;
          s1 = s\<lparr>line := hline (history s)\<rparr>
      in ed\<lparr>editorState := s1\<lparr>dot := int (length (line s1))\<rparr>\<rparr>)"

section \<open>The environment of a read\<close>

text \<open>
  Modelled from the spec: the collaborators of the editor are not among the sources: the
  parser and the compiler of the language, the tokenizer, the colorists, the writer, the
  terminal and the table of key bindings ("a mapping from mode to a mapping from key to an
  action"). They are the fields of \<open>env\<close>. An operation on the terminal answers from the
  operations performed so far, so that the same call may succeed once and fail later. A key
  binding is a function on the editor that may panic. The writer is taken not to change
  the editing state it renders. \<open>padding\<close> is what \<open>%*s\<close> makes of the empty string at a width.
\<close>

datatype compile_error = ContextualError int | OtherCompileError

type_synonym Pos = "int \<times> int"

type_synonym binding = "Editor \<Rightarrow> go_panic + Editor"

record env =
  Parse :: "string \<Rightarrow> Node option"
  tokenize :: "string \<Rightarrow> Node \<Rightarrow> Token list"
  Compile :: "string \<Rightarrow> string \<Rightarrow> Node \<Rightarrow> compile_error option"
  colorists :: "(Node option \<Rightarrow> Editor \<Rightarrow> string) list"
  styleForCompilerError :: string
  writer_refresh :: "editorState \<Rightarrow> effect list \<Rightarrow> error option"
  NewTermiosFromFd :: "effect list \<Rightarrow> error + Termios"
  ApplyToFd :: "Termios option \<Rightarrow> effect list \<Rightarrow> error option"
  GetWinsize :: "effect list \<Rightarrow> int"
  WcWidth :: "int \<Rightarrow> int"
  padding :: "int \<Rightarrow> string"
  keyBindings :: "bufferMode \<Rightarrow> (Key \<Rightarrow> binding option) option"
  DefaultBinding :: Key
  invalidPos :: Pos

section \<open>Rendering\<close>

text \<open>
  The loop of \<open>refresh\<close> that marks the first token whose node spans the position of a
  compiler error. \<open>token.Node.Begin()\<close> panics on a nil node.
\<close>

fun markCompilerError :: "int \<Rightarrow> string \<Rightarrow> Token list \<Rightarrow> go_panic + Token list" where
  "markCompilerError p sty [] = Inr []"
| "markCompilerError p sty (t # ts) =
     (case Node t of
        None \<Rightarrow> Inl NilDereference
      | Some n \<Rightarrow>
          if Begin n \<le> p \<and> p < End n then Inr (t\<lparr>MoreStyle := MoreStyle t @ sty\<rparr> # ts)
          else (case markCompilerError p sty ts of
                  Inl pn \<Rightarrow> Inl pn
                | Inr ts' \<Rightarrow> Inr (t # ts')))"

text \<open>
  The loops \<open>for i, t := range ed.tokens\<close> and \<open>for _, colorist := range colorists\<close>:
  \<open>ed.tokens[i].MoreStyle += colorist(t.Node, ed)\<close>, the colorist seeing the editor as
  it is by then.
\<close>

fun colorToken :: "(Node option \<Rightarrow> Editor \<Rightarrow> string) list \<Rightarrow> Node option \<Rightarrow> nat \<Rightarrow> Editor \<Rightarrow> Editor" where
  "colorToken [] nd i ed = ed"
| "colorToken (colorist # cs) nd i ed =
     colorToken cs nd i
       (set_tokens ((tokens (editorState ed))
          [i := (tokens (editorState ed) ! i)
             \<lparr>MoreStyle := MoreStyle (tokens (editorState ed) ! i) @ colorist nd ed\<rparr>]) ed)"

fun colorTokens :: "(Node option \<Rightarrow> Editor \<Rightarrow> string) list \<Rightarrow> nat list \<Rightarrow> Editor \<Rightarrow> Editor" where
  "colorTokens cs [] ed = ed"
| "colorTokens cs (i # is) ed =
     colorTokens cs is (colorToken cs (Node (tokens (editorState ed) ! i)) i ed)"

text \<open>The body of \<open>if ed.mode != modeCompletion\<close> in \<open>refresh\<close>: lex the line again.\<close>

definition relex :: "env \<Rightarrow> Editor \<Rightarrow> go_panic + Editor" where
  "relex ev ed =
     (let name = ''[interacitve]'';
          src = line (editorState ed);
          lexed =
            (case Parse ev src of
               None \<Rightarrow>
                 Inr (set_tokens [\<lparr>Typ = ParserError, Val = src, Node = None, MoreStyle = ''''\<rparr>] ed)
             | Some n \<Rightarrow>
                 (let ed1 = set_tokens (tokenize ev src n) ed in
                  case Compile ev name src n of
                    Some (ContextualError p) \<Rightarrow>
                      (let ed2 = pushTip ''compiler error highlighted'' ed1 in
                       case markCompilerError p (styleForCompilerError ev) (tokens (editorState ed2)) of
                         Inl pn \<Rightarrow> Inl pn
                       | Inr ts \<Rightarrow> Inr (set_tokens ts ed2))
                  | _ \<Rightarrow> Inr ed1))
      in case lexed of
           Inl pn \<Rightarrow> Inl pn
         | Inr ed3 \<Rightarrow>
             Inr (colorTokens (colorists ev) [0..<length (tokens (editorState ed3))] ed3))"

definition refresh :: "env \<Rightarrow> Editor \<Rightarrow> go_panic + (error option \<times> Editor)" where
  "refresh ev ed =
     (case (if mode (editorState ed) \<noteq> modeCompletion then relex ev ed else Inr ed) of
        Inl pn \<Rightarrow> Inl pn
      | Inr ed1 \<Rightarrow>
          Inr (writer_refresh ev (editorState ed1) (term_file ed1),
               ed1\<lparr>term_file := term_file ed1 @ [WriterRefresh (editorState ed1)]\<rparr>))"

section \<open>Setting up and restoring the terminal\<close>

definition ESC :: string where
  "ESC = [CHR 0x1B]"

definition lackEOLRune :: int where
  "lackEOLRune = 0x23CE"

text \<open>\<open>lackEOL\<close>: reverse video, the rune U+23CE in UTF-8, and the reset.\<close>

definition lackEOL :: string where
  "lackEOL = ESC @ ''[7m'' @ [CHR 0xE2, CHR 0x8F, CHR 0x8E] @ ESC @ ''[m''"

definition autowrap_on :: string where
  "autowrap_on = ESC @ ''[?7h''"

definition autowrap_off :: string where
  "autowrap_off = ESC @ ''[?7l''"

text \<open>
  \<open>setupTerminal\<close>, on the operations performed so far: the result, and the operations
  with those of the setup added.
\<close>

definition setupTerminal :: "env \<Rightarrow> effect list \<Rightarrow> (error + Termios) \<times> effect list" where
  "setupTerminal ev tr =
     (case NewTermiosFromFd ev tr of
        Inl err \<Rightarrow>
          (Inl (ErrMsg (''can't get terminal attribute: '' @ errorString err)), tr @ [TermGetAttr])
      | Inr term \<Rightarrow>
          (let savedTermios = term;
               raw = term\<lparr>ICanon := False, Echo := False, VMin := 1, VTime := 0\<rparr>;
               tr1 = tr @ [TermGetAttr]
           in case ApplyToFd ev (Some raw) tr1 of
                Some err \<Rightarrow>
                  (Inl (ErrMsg (''can't set up terminal attribute: '' @ errorString err)),
                   tr1 @ [TermSetAttr (Some raw)])
              | None \<Rightarrow> (Inr savedTermios, tr1 @ [TermSetAttr (Some raw)])))"

text \<open>
  \<open>startReadLine\<close>. The \<open>Fprintf\<close> writes autowrap on, \<open>lackEOL\<close>, the padding that \<open>%*s\<close>
  makes of the empty string at the width \<open>width - WcWidth(lackEOLRune)\<close>, carriage return,
  space, carriage return and autowrap off.
\<close>

definition startReadLine :: "env \<Rightarrow> Editor \<Rightarrow> error option \<times> Editor" where
  "startReadLine ev ed =
     (case setupTerminal ev (term_file ed) of
        (Inl err, tr) \<Rightarrow> (Some err, ed\<lparr>term_file := tr\<rparr>)
      | (Inr saved, tr) \<Rightarrow>
          (let ed1 = ed\<lparr>term_file := tr,
                         editorState := (editorState ed)\<lparr>savedTermios := Some saved\<rparr>\<rparr>;
               width = GetWinsize ev (term_file ed1)
           in (None,
               ed1\<lparr>term_file := term_file ed1 @
                 [TermWrite (autowrap_on @ lackEOL @
                    padding ev (go_sub width (WcWidth ev lackEOLRune)) @
                    [CHR 0x0D] @ '' '' @ [CHR 0x0D] @ autowrap_off)]\<rparr>)))"

text \<open>The first six assignments of \<open>finishReadLine\<close>.\<close>

definition finishReadLine_reset :: "Editor \<Rightarrow> Editor" where
  "finishReadLine_reset ed =
     (let s = editorState ed;
          s1 = s\<lparr>mode := modeInsert, tips := [], completion := None, navigation := None\<rparr>;
          s2 = s1\<lparr>dot := int (length (line s1))\<rparr>
      in ed\<lparr>editorState := s2\<lparr>rprompt := ''''\<rparr>\<rparr>)"

text \<open>
  \<open>finishReadLine\<close>. \<open>addError\<close> is the function it is handed: here a function on what the
  caller accumulates (\<open>acc\<close>), called with the error of the final render, nil or not, and
  with the error of the restoration when there is one. A panic of the render unwinds
  \<open>finishReadLine\<close>.
\<close>

definition finishReadLine :: "env \<Rightarrow> (error option \<Rightarrow> 'a \<Rightarrow> 'a) \<Rightarrow> 'a \<Rightarrow> Editor \<Rightarrow> go_panic + ('a \<times> Editor)" where
  "finishReadLine ev addError acc ed =
     (case refresh ev (finishReadLine_reset ed) of
        Inl pn \<Rightarrow> Inl pn
      | Inr (rerr, ed1) \<Rightarrow>
          (let acc1 = addError rerr acc;
               ed2 = ed1\<lparr>term_file := term_file ed1 @ [TermWrite [CHR 0x0A]]\<rparr>;
               ed3 = ed2\<lparr>term_file := term_file ed2 @ [ReaderQuit]\<rparr>;
               ed4 = ed3\<lparr>term_file := term_file ed3 @ [TermWrite autowrap_on]\<rparr>;
               err = ApplyToFd ev (savedTermios (editorState ed4)) (term_file ed4);
               ed5 = ed4\<lparr>term_file := term_file ed4 @ [TermSetAttr (savedTermios (editorState ed4))]\<rparr>;
               acc2 = (case err of
                         None \<Rightarrow> acc1
                       | Some e \<Rightarrow>
                           addError (Some (ErrMsg (''can't restore terminal attribute: '' @ errorString e))) acc1);
               ed6 = ed5\<lparr>editorState := (editorState ed5)\<lparr>savedTermios := None\<rparr>\<rparr>
           in Inr (acc2, ed6\<lparr>editorState := editorState_zero\<rparr>)))"

section \<open>Reading a line\<close>

text \<open>
  \<open>ReadLine\<close> waits in a \<open>select\<close> on three channels: the result of the lookup of external
  commands, the signals, and what the reader decoded. The model is handed the events in
  the order the \<open>select\<close> takes them. \<open>OtherSignal\<close> carries the name of the signal.

  Modelled from the spec: the declaration of \<open>OneRead\<close> is not among the sources. The event
  source yields "key event, cursor-position report, decode error": the fields \<open>Key\<close>, \<open>CPR\<close>
  and \<open>Err\<close> that \<open>ReadLine\<close> reads.
\<close>

datatype signal = SIGINT | SIGWINCH | SIGCHLD | OtherSignal string

record OneRead =
  or_Key :: Key
  or_CPR :: Pos
  or_Err :: "error option"

datatype event =
    IsExternalReady "string \<rightharpoonup> bool"
  | SignalReceived signal
  | OneReadReady OneRead

text \<open>How a pass of the loop ends: with the next pass, or with a \<open>return\<close>.\<close>

datatype flow = Next Editor | Return LineRead Editor

text \<open>
  From the label \<open>lookupKey\<close> to the end of the \<open>switch\<close> on the action. \<open>reprocessKey\<close>
  jumps back to the label, possibly for ever: the first argument bounds the number of
  passes, and \<open>None\<close> says that the bound was reached. Calling the zero value that the
  table yields for an unbound default binding panics.
\<close>

fun lookupKey :: "nat \<Rightarrow> env \<Rightarrow> Key \<Rightarrow> Editor \<Rightarrow> (go_panic + flow) option" where
  "lookupKey 0 ev k ed = None"
| "lookupKey (Suc n) ev k ed =
     (case keyBindings ev (mode (editorState ed)) of
        None \<Rightarrow> Some (Inr (Next (pushTip ''No binding for current mode'' ed)))
      | Some keyBinding \<Rightarrow>
          (case (case keyBinding k of Some fn \<Rightarrow> Some fn | None \<Rightarrow> keyBinding (DefaultBinding ev)) of
             None \<Rightarrow> Some (Inl NilDereference)
           | Some fn \<Rightarrow>
               (case fn (set_editorState ((editorState ed)\<lparr>lastKey := k\<rparr>) ed) of
                  Inl pn \<Rightarrow> Some (Inl pn)
                | Inr ed1 \<Rightarrow>
                    (let act = nextAction (editorState ed1);
                         ed2 = set_editorState ((editorState ed1)\<lparr>nextAction := action_zero\<rparr>) ed1
                     in case actionType act of
                          noAction \<Rightarrow> Some (Inr (Next ed2))
                        | reprocessKey \<Rightarrow>
                            (case refresh ev ed2 of
                               Inl pn \<Rightarrow> Some (Inl pn)
                             | Inr (Some err, ed3) \<Rightarrow>
                                 Some (Inr (Return (LineRead_zero\<lparr>Err := Some err\<rparr>) ed3))
                             | Inr (None, ed3) \<Rightarrow> lookupKey n ev k ed3)
                        | exitReadLine \<Rightarrow>
                            (let lr = returnValue act
                             in if EOF lr = False \<and> Err lr = None \<and> Line lr \<noteq> ''''
                                then Some (Inr (Return lr (appendHistory (Line lr) ed2)))
                                else Some (Inr (Return lr ed2)))))))"

text \<open>The \<open>select\<close>, with the event it took.\<close>

fun handleEvent :: "nat \<Rightarrow> env \<Rightarrow> event \<Rightarrow> Editor \<Rightarrow> (go_panic + flow) option" where
  "handleEvent fuel ev (IsExternalReady m) ed =
     Some (Inr (Next (set_editorState ((editorState ed)\<lparr>isExternal := m\<rparr>) ed)))"
| "handleEvent fuel ev (SignalReceived SIGINT) ed =
     Some (Inr (Next (set_editorState
       (editorState_zero\<lparr>savedTermios := savedTermios (editorState ed),
                         isExternal := isExternal (editorState ed)\<rparr>) ed)))"
| "handleEvent fuel ev (SignalReceived SIGWINCH) ed = Some (Inr (Next ed))"
| "handleEvent fuel ev (SignalReceived SIGCHLD) ed = Some (Inr (Next ed))"
| "handleEvent fuel ev (SignalReceived (OtherSignal nm)) ed =
     Some (Inr (Next (pushTip (''ignored signal '' @ nm) ed)))"
| "handleEvent fuel ev (OneReadReady r) ed =
     (case or_Err r of
        Some err \<Rightarrow> Some (Inr (Next (pushTip (errorString err) ed)))
      | None \<Rightarrow>
          if or_CPR r \<noteq> invalidPos ev then Some (Inr (Next ed))
          else lookupKey fuel ev (or_Key r) ed)"

text \<open>
  The head of a pass, up to the \<open>select\<close>: the prompts, the render and the tips.
  \<open>prompt\<close> and \<open>rprompt\<close> are the two functions \<open>ReadLine\<close> is handed.
\<close>

definition loopHead :: "env \<Rightarrow> (Editor \<Rightarrow> string) \<Rightarrow> (Editor \<Rightarrow> string) \<Rightarrow> Editor \<Rightarrow> go_panic + flow" where
  "loopHead ev prompt_fn rprompt_fn ed =
     (let ed1 = set_editorState ((editorState ed)\<lparr>prompt := prompt_fn ed\<rparr>) ed;
          ed2 = set_editorState ((editorState ed1)\<lparr>rprompt := rprompt_fn ed1\<rparr>) ed1
      in case refresh ev ed2 of
           Inl pn \<Rightarrow> Inl pn
         | Inr (Some err, ed3) \<Rightarrow> Inr (Return (LineRead_zero\<lparr>Err := Some err\<rparr>) ed3)
         | Inr (None, ed3) \<Rightarrow> Inr (Next (set_editorState ((editorState ed3)\<lparr>tips := []\<rparr>) ed3)))"

text \<open>
  The loop \<open>MainLoop\<close> on the events to come. With no event left the \<open>select\<close> waits:
  \<open>None\<close>. A panic ends the model of the read (\<open>Inl\<close>); what the deferred teardown does
  on the state the panic left is not followed.
\<close>

fun mainLoop :: "nat \<Rightarrow> env \<Rightarrow> (Editor \<Rightarrow> string) \<Rightarrow> (Editor \<Rightarrow> string) \<Rightarrow> event list \<Rightarrow> Editor \<Rightarrow>
    (go_panic + LineRead \<times> Editor) option" where
  "mainLoop fuel ev prompt_fn rprompt_fn [] ed =
     (case loopHead ev prompt_fn rprompt_fn ed of
        Inl pn \<Rightarrow> Some (Inl pn)
      | Inr (Return lr ed1) \<Rightarrow> Some (Inr (lr, ed1))
      | Inr (Next ed1) \<Rightarrow> None)"
| "mainLoop fuel ev prompt_fn rprompt_fn (e # es) ed =
     (case loopHead ev prompt_fn rprompt_fn ed of
        Inl pn \<Rightarrow> Some (Inl pn)
      | Inr (Return lr ed1) \<Rightarrow> Some (Inr (lr, ed1))
      | Inr (Next ed1) \<Rightarrow>
          (case handleEvent fuel ev e ed1 of
             None \<Rightarrow> None
           | Some (Inl pn) \<Rightarrow> Some (Inl pn)
           | Some (Inr (Return lr ed2)) \<Rightarrow> Some (Inr (lr, ed2))
           | Some (Inr (Next ed2)) \<Rightarrow> mainLoop fuel ev prompt_fn rprompt_fn es ed2))"

text \<open>The function \<open>ReadLine\<close> defers to \<open>finishReadLine\<close>, on its named result \<open>lr\<close>.\<close>

definition addError :: "error option \<Rightarrow> LineRead \<Rightarrow> LineRead" where
  "addError err lr = (case err of None \<Rightarrow> lr | Some e \<Rightarrow> lr\<lparr>Err := CatError (Err lr) (Some e)\<rparr>)"

definition ReadLine_begin :: "Editor \<Rightarrow> Editor" where
  "ReadLine_begin ed =
     ed\<lparr>editorState := editorState_zero\<lparr>active := True\<rparr>,
        term_file := term_file ed @ [WriterResetOldBuf, ReaderRun]\<rparr>"

definition ReadLine :: "nat \<Rightarrow> env \<Rightarrow> (Editor \<Rightarrow> string) \<Rightarrow> (Editor \<Rightarrow> string) \<Rightarrow> event list \<Rightarrow> Editor \<Rightarrow>
    (go_panic + LineRead \<times> Editor) option" where
  "ReadLine fuel ev prompt_fn rprompt_fn es ed =
     (case startReadLine ev (ReadLine_begin ed) of
        (Some err, ed1) \<Rightarrow> Some (Inr (LineRead_zero\<lparr>Err := Some err\<rparr>, ed1))
      | (None, ed1) \<Rightarrow>
          (case mainLoop fuel ev prompt_fn rprompt_fn es ed1 of
             None \<Rightarrow> None
           | Some (Inl pn) \<Rightarrow> Some (Inl pn)
           | Some (Inr (lr, ed2)) \<Rightarrow>
               (case finishReadLine ev addError lr ed2 of
                  Inl pn \<Rightarrow> Some (Inl pn)
                | Inr (lr', ed3) \<Rightarrow> Some (Inr (lr', ed3)))))"

section \<open>The properties, in the words of the spec\<close>

text \<open>
  What the spec says of the two scans, in its words: \<open>k\<close> is the most recent entry before
  the index \<open>n\<close>, and \<open>k\<close> is the earliest entry from the index \<open>n\<close> on, whose text starts
  with the prefix. \<open>[i..j]\<close> is the list of the integers from \<open>i\<close> to \<open>j\<close>.
\<close>

definition last_match :: "string list \<Rightarrow> int \<Rightarrow> string \<Rightarrow> int \<Rightarrow> bool" where
  "last_match hs n p k =
     (0 \<le> k \<and> k < n \<and> HasPrefix (hs ! nat k) p \<and>
      list_all (\<lambda>j. \<not> HasPrefix (hs ! nat j) p) [k + 1..n - 1])"

definition first_match :: "string list \<Rightarrow> int \<Rightarrow> string \<Rightarrow> int \<Rightarrow> bool" where
  "first_match hs n p k =
     (n \<le> k \<and> k < int (length hs) \<and> HasPrefix (hs ! nat k) p \<and>
      list_all (\<lambda>j. \<not> HasPrefix (hs ! nat j) p) [n..k - 1])"

text \<open>The invariant of the spec's data model: \<open>0 <= dot <= len(line)\<close>.\<close>

definition dot_in_line :: "Editor \<Rightarrow> bool" where
  "dot_in_line ed =
     (0 \<le> dot (editorState ed) \<and> dot (editorState ed) \<le> int (length (line (editorState ed))))"

definition in_candidates :: "completion \<Rightarrow> bool" where
  "in_candidates c = (0 \<le> comp_current c \<and> comp_current c < int (length (candidates c)))"

text \<open>A result "carries a non-empty \<open>Line\<close> with \<open>Err\<close> nil and \<open>EOF\<close> false".\<close>

definition accepted :: "LineRead \<Rightarrow> bool" where
  "accepted lr = (Line lr \<noteq> '''' \<and> Err lr = None \<and> EOF lr = False)"

text \<open>
  Between two states of the editor, the line of the result was appended once to the
  session history, with one \<open>AddCmd\<close> to the store if there is one, when the result is
  accepted, and nothing was appended when it is not.
\<close>

definition appended_iff_accepted :: "LineRead \<Rightarrow> Editor \<Rightarrow> Editor \<Rightarrow> bool" where
  "appended_iff_accepted lr ed ed' =
     (if accepted lr
      then histories ed' = histories ed @ [Line lr] \<and>
           store ed' = map_option (AddCmd (Line lr)) (store ed)
      else histories ed' = histories ed \<and> store ed' = store ed)"

text \<open>
  The key bindings are not among the sources. What the editor guarantees about the session
  history, whatever the keys typed, it guarantees for bindings that leave the session
  history and the store alone.
\<close>

definition bindings_keep_history :: "env \<Rightarrow> bool" where
  "bindings_keep_history ev =
     (\<forall>m kb k fn ed ed'. keyBindings ev m = Some kb \<and> kb k = Some fn \<and> fn ed = Inr ed' \<longrightarrow>
        histories ed' = histories ed \<and> store ed' = store ed)"

definition same_history :: "Editor \<Rightarrow> Editor \<Rightarrow> bool" where
  "same_history ed ed' = (histories ed' = histories ed \<and> store ed' = store ed)"

text \<open>Bindings that leave the saved terminal settings alone.\<close>

definition bindings_keep_termios :: "env \<Rightarrow> bool" where
  "bindings_keep_termios ev =
     (\<forall>m kb k fn ed ed'. keyBindings ev m = Some kb \<and> kb k = Some fn \<and> fn ed = Inr ed' \<longrightarrow>
        savedTermios (editorState ed') = savedTermios (editorState ed))"

definition same_termios :: "Editor \<Rightarrow> Editor \<Rightarrow> bool" where
  "same_termios ed ed' = (savedTermios (editorState ed') = savedTermios (editorState ed))"

text \<open>The error that \<open>finishReadLine\<close> makes of a failed restoration.\<close>

definition restore_error :: "error option \<Rightarrow> error option" where
  "restore_error err =
     map_option (\<lambda>e. ErrMsg (''can't restore terminal attribute: '' @ errorString e)) err"

text \<open>Rendering changes the tokens and the tips of the editing state, and nothing else.\<close>

definition lexed_from :: "Editor \<Rightarrow> Editor \<Rightarrow> bool" where
  "lexed_from ed ed' =
     (ed' = ed\<lparr>editorState := (editorState ed)
        \<lparr>tokens := tokens (editorState ed'), tips := tips (editorState ed')\<rparr>\<rparr>)"

section \<open>Example states and environments\<close>

definition session_example :: Editor where
  "session_example = (NewEditor None)\<lparr>histories := [''ls'', ''cd /tmp'', ''ls -la'']\<rparr>"

definition store_example :: store where
  "store_example =
     \<lparr>NextCmdSeq = Inr 10,
      LastCmd = (\<lambda>n p. if 8 < n \<and> p = ''ls'' then Inr (8, ''ls -l'') else Inl ErrNoMatchingCmd),
      FirstCmd = (\<lambda>n p. if n \<le> 8 \<and> p = ''ls'' then Inr (8, ''ls -l'') else Inl ErrNoMatchingCmd),
      added = []\<rparr>"

definition cursor :: "int \<Rightarrow> string \<Rightarrow> string \<Rightarrow> history" where
  "cursor i p l = \<lparr>current = i, prefix = p, hline = l\<rparr>"

definition candidate_of :: "string \<Rightarrow> candidate" where
  "candidate_of t = \<lparr>source = \<lparr>stext = t, style = ''''\<rparr>, menu = \<lparr>stext = t, style = ''''\<rparr>\<rparr>"

definition completing :: "string \<Rightarrow> int \<Rightarrow> completion \<Rightarrow> Editor" where
  "completing l d c =
     (NewEditor None)\<lparr>editorState :=
        editorState_zero\<lparr>line := l, dot := d, mode := modeCompletion, completion := Some c\<rparr>\<rparr>"

text \<open>
  Three bindings in the manner of the editor's own: Enter leaves \<open>exitReadLine\<close> with the
  line, Ctrl-D leaves \<open>exitReadLine\<close> with the end-of-file marker, and the default binding
  inserts the text of the key's rune at the dot.
\<close>

definition set_nextAction :: "action \<Rightarrow> Editor \<Rightarrow> Editor" where
  "set_nextAction a ed = ed\<lparr>editorState := (editorState ed)\<lparr>nextAction := a\<rparr>\<rparr>"

definition accept_line :: binding where
  "accept_line ed =
     Inr (set_nextAction
       \<lparr>actionType = exitReadLine, returnValue = LineRead_zero\<lparr>Line := line (editorState ed)\<rparr>\<rparr> ed)"

definition end_of_file :: binding where
  "end_of_file ed =
     Inr (set_nextAction \<lparr>actionType = exitReadLine, returnValue = LineRead_zero\<lparr>EOF := True\<rparr>\<rparr> ed)"

definition rune_text :: "int \<Rightarrow> string" where
  "rune_text r = (if r = 108 then ''l'' else if r = 115 then ''s'' else ''?'')"

definition insert_key :: binding where
  "insert_key ed = insertAtDot (rune_text (Rune (lastKey (editorState ed)))) ed"

definition Enter :: Key where
  "Enter = Key 13 0"

definition CtrlD :: Key where
  "CtrlD = Key 4 0"

definition plain_termios :: Termios where
  "plain_termios = \<lparr>ICanon = True, Echo = True, VMin = 1, VTime = 0, otherFlags = 0\<rparr>"

definition env_example :: env where
  "env_example =
     \<lparr>Parse = (\<lambda>src. None),
      tokenize = (\<lambda>src n. []),
      Compile = (\<lambda>name src n. None),
      colorists = [],
      styleForCompilerError = '''',
      writer_refresh = (\<lambda>s tr. None),
      NewTermiosFromFd = (\<lambda>tr. Inr plain_termios),
      ApplyToFd = (\<lambda>t tr. None),
      GetWinsize = (\<lambda>tr. 3),
      WcWidth = (\<lambda>r. 1),
      padding = (\<lambda>n. replicate (nat n) CHR '' ''),
      keyBindings = (\<lambda>m. if m = modeInsert
         then Some (\<lambda>k. if k = Enter then Some accept_line
                         else if k = CtrlD then Some end_of_file
                         else if k = Key 0 0 then Some insert_key else None)
         else None),
      DefaultBinding = Key 0 0,
      invalidPos = (- 1, - 1)\<rparr>"

definition key_event :: "Key \<Rightarrow> event" where
  "key_event k = OneReadReady \<lparr>or_Key = k, or_CPR = (- 1, - 1), or_Err = None\<rparr>"

definition no_prompt :: "Editor \<Rightarrow> string" where
  "no_prompt ed = ''''"

text \<open>The example environment with a terminal whose settings cannot be read.\<close>

definition env_setup_fails :: env where
  "env_setup_fails = env_example\<lparr>NewTermiosFromFd := (\<lambda>tr. Inl (ErrMsg ''ENOTTY''))\<rparr>"

text \<open>The example environment with a writer that fails.\<close>

definition env_render_fails :: env where
  "env_render_fails = env_example\<lparr>writer_refresh := (\<lambda>s tr. Some (ErrMsg ''EIO''))\<rparr>"

text \<open>The same environment with a terminal that cannot be restored once the reader has quit.\<close>

definition env_restore_fails :: env where
  "env_restore_fails =
     env_example\<lparr>ApplyToFd :=
       (\<lambda>t tr. if list_ex (\<lambda>e. case e of ReaderQuit \<Rightarrow> True | _ \<Rightarrow> False) tr
                then Some (ErrMsg ''EIO'') else None)\<rparr>"

definition read_ls :: "(go_panic + LineRead \<times> Editor) option" where
  "read_ls = ReadLine 1 env_example no_prompt no_prompt
     [key_event (Key 108 0), key_event (Key 115 0), key_event Enter] (NewEditor (Some store_example))"

definition read_eof :: "(go_panic + LineRead \<times> Editor) option" where
  "read_eof = ReadLine 1 env_example no_prompt no_prompt
     [key_event (Key 108 0), key_event CtrlD] (NewEditor (Some store_example))"

text \<open>What a read returned, and what it left in the session history and handed to the store.\<close>

definition outcome :: "(go_panic + LineRead \<times> Editor) option \<Rightarrow> (LineRead \<times> string list \<times> string list option) option" where
  "outcome r =
     (case r of
        Some (Inr (lr, ed)) \<Rightarrow> Some (lr, histories ed, map_option added (store ed))
      | _ \<Rightarrow> None)"

text \<open>What a read returned and the last four operations it performed on the terminal.\<close>

definition last_operations :: "(go_panic + LineRead \<times> Editor) option \<Rightarrow> (LineRead \<times> effect list) option" where
  "last_operations r =
     (case r of
        Some (Inr (lr, ed)) \<Rightarrow> Some (lr, drop (length (term_file ed) - 4) (term_file ed))
      | _ \<Rightarrow> None)"

section \<open>The scans of the session history\<close>

lemma last_match_iff:
  "last_match hs n p k \<longleftrightarrow>
     0 \<le> k \<and> k < n \<and> HasPrefix (hs ! nat k) p \<and>
     (\<forall>j. k < j \<and> j < n \<longrightarrow> \<not> HasPrefix (hs ! nat j) p)"
  by (auto simp: last_match_def list_all_iff)

lemma first_match_iff:
  "first_match hs n p k \<longleftrightarrow>
     n \<le> k \<and> k < int (length hs) \<and> HasPrefix (hs ! nat k) p \<and>
     (\<forall>j. n \<le> j \<and> j < k \<longrightarrow> \<not> HasPrefix (hs ! nat j) p)"
  by (auto simp: first_match_def list_all_iff)

lemma lastHistory_loop_found:
  "last_match hs (i + 1) p k \<Longrightarrow> i < int (length hs) \<Longrightarrow>
   lastHistory_loop hs i p = Inr (k, hs ! nat k)"
proof (induction hs i p rule: lastHistory_loop.induct)
  case (1 hs i p)
  show ?case
  proof (cases "HasPrefix (hs ! nat i) p")
    case True
    from True "1.prems" have "\<not> k < i" and "k \<le> i"
      unfolding last_match_iff by auto
    then have "k = i" by simp
    with True "1.prems" show ?thesis
      by (simp add: last_match_iff)
  next
    case False
    with "1.prems" have k: "k < i" "0 \<le> i"
      unfolding last_match_iff by (auto simp: less_le)
    with "1.prems" have "last_match hs (i - 1 + 1) p k"
      unfolding last_match_iff by auto
    with "1.IH" False k "1.prems"(2) have "lastHistory_loop hs (i - 1) p = Inr (k, hs ! nat k)"
      by simp
    with False k "1.prems"(2) show ?thesis
      by (subst lastHistory_loop.simps) simp
  qed
qed

lemma lastHistory_loop_none:
  "\<forall>j. 0 \<le> j \<and> j \<le> i \<longrightarrow> \<not> HasPrefix (hs ! nat j) p \<Longrightarrow> i < int (length hs) \<Longrightarrow>
   lastHistory_loop hs i p = Inr (- 1, '''')"
proof (induction hs i p rule: lastHistory_loop.induct)
  case (1 hs i p)
  show ?case
  proof (cases "0 \<le> i")
    case True
    with "1.prems" have np: "\<not> HasPrefix (hs ! nat i) p" by simp
    from "1.prems" have "\<forall>j. 0 \<le> j \<and> j \<le> i - 1 \<longrightarrow> \<not> HasPrefix (hs ! nat j) p" by simp
    with "1.IH" True np "1.prems"(2) have "lastHistory_loop hs (i - 1) p = Inr (- 1, '''')"
      by simp
    with True np "1.prems"(2) show ?thesis
      by (subst lastHistory_loop.simps) simp
  next
    case False
    then show ?thesis by (subst lastHistory_loop.simps) simp
  qed
qed

lemma lastHistory_loop_panic:
  "0 \<le> i \<Longrightarrow> int (length hs) \<le> i \<Longrightarrow> lastHistory_loop hs i p = Inl IndexOutOfRange"
  by (subst lastHistory_loop.simps) simp

lemma firstHistory_loop_found:
  "first_match hs i p k \<Longrightarrow> 0 \<le> i \<Longrightarrow>
   firstHistory_loop hs i p = Inr (k, hs ! nat k)"
proof (induction hs i p rule: firstHistory_loop.induct)
  case (1 hs i p)
  from "1.prems" have il: "i < int (length hs)"
    unfolding first_match_iff by auto
  show ?case
  proof (cases "HasPrefix (hs ! nat i) p")
    case True
    from True "1.prems" have "\<not> i < k" and "i \<le> k"
      unfolding first_match_iff by auto
    then have "k = i" by simp
    with True il "1.prems" show ?thesis
      by (subst firstHistory_loop.simps) simp
  next
    case False
    with "1.prems" have k: "i < k"
      unfolding first_match_iff by (auto simp: less_le)
    with "1.prems" have "first_match hs (i + 1) p k"
      unfolding first_match_iff by auto
    with "1.IH" False il "1.prems"(2) have "firstHistory_loop hs (i + 1) p = Inr (k, hs ! nat k)"
      by simp
    with False il "1.prems"(2) show ?thesis
      by (subst firstHistory_loop.simps) simp
  qed
qed

lemma firstHistory_loop_none:
  "\<forall>j. i \<le> j \<and> j < int (length hs) \<longrightarrow> \<not> HasPrefix (hs ! nat j) p \<Longrightarrow> 0 \<le> i \<Longrightarrow>
   firstHistory_loop hs i p = Inr (- 1, '''')"
proof (induction hs i p rule: firstHistory_loop.induct)
  case (1 hs i p)
  show ?case
  proof (cases "i < int (length hs)")
    case True
    with "1.prems" have np: "\<not> HasPrefix (hs ! nat i) p" by simp
    from "1.prems" have "\<forall>j. i + 1 \<le> j \<and> j < int (length hs) \<longrightarrow> \<not> HasPrefix (hs ! nat j) p" by simp
    with "1.IH" True np "1.prems"(2) have "firstHistory_loop hs (i + 1) p = Inr (- 1, '''')"
      by simp
    with True np "1.prems"(2) show ?thesis
      by (subst firstHistory_loop.simps) simp
  next
    case False
    then show ?thesis by (subst firstHistory_loop.simps) simp
  qed
qed

section \<open>The history navigator\<close>

text \<open>The definitions that the examples of this section and of the later ones unfold.\<close>

lemmas ex_defs = session_example_def store_example_def cursor_def NewEditor_def set_history_def
  jump_def editorState_zero_def history_zero_def

lemmas run_defs = env_example_def key_event_def no_prompt_def Enter_def CtrlD_def
  accept_line_def end_of_file_def insert_key_def rune_text_def set_nextAction_def plain_termios_def
  ReadLine_def ReadLine_begin_def startReadLine_def setupTerminal_def loopHead_def refresh_def relex_def
  finishReadLine_def finishReadLine_reset_def addError_def set_editorState_def set_tokens_def
  pushTip_def insertAtDot_def appendHistory_def AddCmd_def NewEditor_def editorState_zero_def
  LineRead_zero_def action_zero_def history_zero_def Key_zero_def

lemma prevHistory_session_hit:
  assumes "go_int (current (history (editorState ed)))"
    and "current (history (editorState ed)) \<le> int (length (histories ed))"
    and "0 < current (history (editorState ed))"
    and "last_match (histories ed) (current (history (editorState ed))) (prefix (history (editorState ed))) k"
  shows "prevHistory ed =
     Inr (True, set_history (jump k (histories ed ! nat k) (history (editorState ed))) ed)"
proof -
  let ?c = "current (history (editorState ed))"
  from assms(1,3) have w: "go_sub ?c 1 = ?c - 1"
    by (simp add: go_sub_def wrap64_def go_int_def)
  from assms(4) have k: "0 \<le> k" by (simp add: last_match_iff)
  from assms(4) have "last_match (histories ed) (?c - 1 + 1) (prefix (history (editorState ed))) k"
    by simp
  moreover from assms(2) have "?c - 1 < int (length (histories ed))" by simp
  ultimately have "lastHistory_loop (histories ed) (?c - 1) (prefix (history (editorState ed)))
      = Inr (k, histories ed ! nat k)"
    by (rule lastHistory_loop_found)
  with w k assms(3) show ?thesis
    by (simp add: prevHistory_def lastHistory_def)
qed

lemma prevHistory_session_miss:
  assumes "go_int (current (history (editorState ed)))"
    and "current (history (editorState ed)) \<le> int (length (histories ed))"
    and "\<not> (0 < current (history (editorState ed)) \<and>
         (\<exists>k. last_match (histories ed) (current (history (editorState ed))) (prefix (history (editorState ed))) k))"
  shows "prevHistory ed = Inr (prevHistory_persistent ed)"
proof (cases "0 < current (history (editorState ed))")
  case False
  then show ?thesis by (simp add: prevHistory_def)
next
  case True
  let ?c = "current (history (editorState ed))"
  let ?p = "prefix (history (editorState ed))"
  from assms(1) True have w: "go_sub ?c 1 = ?c - 1"
    by (simp add: go_sub_def wrap64_def go_int_def)
  have none: "\<forall>j. 0 \<le> j \<and> j \<le> ?c - 1 \<longrightarrow> \<not> HasPrefix (histories ed ! nat j) ?p"
  proof (rule ccontr)
    assume "\<not> ?thesis"
    then obtain j where j: "0 \<le> j" "j \<le> ?c - 1" "HasPrefix (histories ed ! nat j) ?p"
      by blast
    define S where "S = {n. int n < ?c \<and> HasPrefix (histories ed ! n) ?p}"
    have fin: "finite S"
    proof (rule finite_subset)
      show "S \<subseteq> {n. n < nat ?c}" by (auto simp: S_def)
    qed simp
    from j have ne: "nat j \<in> S" by (simp add: S_def)
    define m where "m = Max S"
    from fin ne have mS: "m \<in> S" unfolding m_def by (metis Max_in empty_iff)
    have mx: "\<And>n. n \<in> S \<Longrightarrow> n \<le> m" unfolding m_def using fin by simp
    have "last_match (histories ed) ?c ?p (int m)"
      unfolding last_match_iff
    proof (intro conjI allI impI)
      show "0 \<le> int m" by simp
      from mS show "int m < ?c" by (simp add: S_def)
      from mS show "HasPrefix (histories ed ! nat (int m)) ?p" by (simp add: S_def)
    next
      fix j' assume a: "int m < j' \<and> j' < ?c"
      show "\<not> HasPrefix (histories ed ! nat j') ?p"
      proof
        assume "HasPrefix (histories ed ! nat j') ?p"
        with a have "nat j' \<in> S" by (simp add: S_def)
        then have "nat j' \<le> m" by (rule mx)
        with a show False by linarith
      qed
    qed
    with assms(3) True show False by blast
  qed
  from assms(2) have "?c - 1 < int (length (histories ed))" by simp
  with none have "lastHistory_loop (histories ed) (?c - 1) ?p = Inr (- 1, '''')"
    by (rule lastHistory_loop_none)
  with w True show ?thesis
    by (simp add: prevHistory_def lastHistory_def)
qed

text \<open>
  Claim C1, as amended. For every state whose \<open>current\<close> is a Go \<open>int\<close> and at most the
  length of the session history, and for every store: if \<open>current > 0\<close> and \<open>k\<close> is the most
  recent session entry before \<open>current\<close> that starts with the prefix, \<open>prevHistory\<close> jumps to
  \<open>(k, histories[k])\<close> and returns true. Otherwise (also when the session scan misses) the
  store, if there is one, is asked for \<open>LastCmd(cmdSeq + min(0, current), prefix)\<close>: an
  answer \<open>(i, l)\<close> makes \<open>prevHistory\<close> jump to \<open>(i - cmdSeq, l)\<close> and return true; an error
  of the store, or no store, leaves the editor unchanged and returns false. Sums and
  differences are Go's.
\<close>

theorem prevHistory_two_tiers:
  assumes "go_int (current (history (editorState ed)))"
    and "current (history (editorState ed)) \<le> int (length (histories ed))"
  shows
    "(let h = history (editorState ed); hs = histories ed;
          up_to = go_add (cmdSeq ed) (min 0 (current h))
      in (\<forall>k. 0 < current h \<and> last_match hs (current h) (prefix h) k \<longrightarrow>
               prevHistory ed = Inr (True, set_history (jump k (hs ! nat k) h) ed)) \<and>
         (\<not> (0 < current h \<and> (\<exists>k. last_match hs (current h) (prefix h) k)) \<longrightarrow>
            (\<forall>s i l. store ed = Some s \<and> LastCmd s up_to (prefix h) = Inr (i, l) \<longrightarrow>
               prevHistory ed = Inr (True, set_history (jump (go_sub i (cmdSeq ed)) l h) ed)) \<and>
            (\<forall>s err. store ed = Some s \<and> LastCmd s up_to (prefix h) = Inl err \<longrightarrow>
               prevHistory ed = Inr (False, ed)) \<and>
            (store ed = None \<longrightarrow> prevHistory ed = Inr (False, ed))))"
  unfolding Let_def
proof (intro conjI allI impI)
  fix k
  assume "0 < current (history (editorState ed)) \<and>
    last_match (histories ed) (current (history (editorState ed))) (prefix (history (editorState ed))) k"
  with assms show "prevHistory ed =
     Inr (True, set_history (jump k (histories ed ! nat k) (history (editorState ed))) ed)"
    by (simp add: prevHistory_session_hit)
next
  fix s i l
  assume miss: "\<not> (0 < current (history (editorState ed)) \<and>
         (\<exists>k. last_match (histories ed) (current (history (editorState ed))) (prefix (history (editorState ed))) k))"
    and "store ed = Some s \<and>
      LastCmd s (go_add (cmdSeq ed) (min 0 (current (history (editorState ed))))) (prefix (history (editorState ed))) = Inr (i, l)"
  with prevHistory_session_miss [OF assms miss]
  show "prevHistory ed = Inr (True, set_history (jump (go_sub i (cmdSeq ed)) l (history (editorState ed))) ed)"
    by (simp add: prevHistory_persistent_def)
next
  fix s err
  assume miss: "\<not> (0 < current (history (editorState ed)) \<and>
         (\<exists>k. last_match (histories ed) (current (history (editorState ed))) (prefix (history (editorState ed))) k))"
    and "store ed = Some s \<and>
      LastCmd s (go_add (cmdSeq ed) (min 0 (current (history (editorState ed))))) (prefix (history (editorState ed))) = Inl err"
  with prevHistory_session_miss [OF assms miss]
  show "prevHistory ed = Inr (False, ed)"
    by (simp add: prevHistory_persistent_def)
next
  assume miss: "\<not> (0 < current (history (editorState ed)) \<and>
         (\<exists>k. last_match (histories ed) (current (history (editorState ed))) (prefix (history (editorState ed))) k))"
    and "store ed = None"
  with prevHistory_session_miss [OF assms miss]
  show "prevHistory ed = Inr (False, ed)"
    by (simp add: prevHistory_persistent_def)
qed

text \<open>
  The four cases at concrete states: a session hit, a store hit, a store miss, and no
  store with \<open>current = 0\<close>.
\<close>

theorem prevHistory_two_tiers_witness:
  "prevHistory (set_history (cursor 3 ''ls'' '''') session_example)
     = Inr (True, set_history (cursor 2 ''ls'' ''ls -la'') session_example) \<and>
   prevHistory (set_history (cursor 0 ''ls'' '''') (NewEditor (Some store_example)))
     = Inr (True, set_history (cursor (- 2) ''ls'' ''ls -l'') (NewEditor (Some store_example))) \<and>
   prevHistory (set_history (cursor 0 ''cd'' '''') (NewEditor (Some store_example)))
     = Inr (False, set_history (cursor 0 ''cd'' '''') (NewEditor (Some store_example))) \<and>
   prevHistory (set_history (cursor 0 ''ls'' '''') session_example)
     = Inr (False, set_history (cursor 0 ''ls'' '''') session_example)"
proof -
  let ?a = "set_history (cursor 3 ''ls'' '''') session_example"
  let ?b = "set_history (cursor 0 ''ls'' '''') (NewEditor (Some store_example))"
  let ?c = "set_history (cursor 0 ''cd'' '''') (NewEditor (Some store_example))"
  let ?d = "set_history (cursor 0 ''ls'' '''') session_example"
  have a: "go_int (current (history (editorState ?a)))"
      "current (history (editorState ?a)) \<le> int (length (histories ?a))"
    by (simp_all add: ex_defs go_int_def)
  have am: "0 < current (history (editorState ?a)) \<and>
      last_match (histories ?a) (current (history (editorState ?a))) (prefix (history (editorState ?a))) 2"
    by (simp add: ex_defs last_match_iff HasPrefix_def)
  have b: "go_int (current (history (editorState ?b)))"
      "current (history (editorState ?b)) \<le> int (length (histories ?b))"
    by (simp_all add: ex_defs go_int_def)
  have c: "go_int (current (history (editorState ?c)))"
      "current (history (editorState ?c)) \<le> int (length (histories ?c))"
    by (simp_all add: ex_defs go_int_def)
  have d: "go_int (current (history (editorState ?d)))"
      "current (history (editorState ?d)) \<le> int (length (histories ?d))"
    by (simp_all add: ex_defs go_int_def)
  from prevHistory_two_tiers [OF a] am
  have "prevHistory ?a = Inr (True, set_history (jump 2 (histories ?a ! nat 2) (history (editorState ?a))) ?a)"
    unfolding Let_def by blast
  then have 1: "prevHistory ?a = Inr (True, set_history (cursor 2 ''ls'' ''ls -la'') session_example)"
    by (simp add: ex_defs)
  have 2: "prevHistory ?b = Inr (True, set_history (cursor (- 2) ''ls'' ''ls -l'') (NewEditor (Some store_example)))"
    using prevHistory_two_tiers [OF b]
    by (simp add: ex_defs go_add_def go_sub_def wrap64_def Let_def last_match_iff)
  have 3: "prevHistory ?c = Inr (False, ?c)"
    using prevHistory_two_tiers [OF c]
    by (simp add: ex_defs go_add_def go_sub_def wrap64_def Let_def last_match_iff)
  have 4: "prevHistory ?d = Inr (False, ?d)"
    using prevHistory_two_tiers [OF d]
    by (simp add: ex_defs Let_def last_match_iff)
  from 1 2 3 4 show ?thesis by simp
qed

text \<open>
  Claim C1 as stated, for every state: with an empty session history and \<open>current = 1\<close>
  the scan reads \<open>histories[0]\<close> and \<open>prevHistory\<close> panics; it does not return failure.
\<close>

theorem prevHistory_beyond_session_counterexample:
  "prevHistory (set_history (cursor 1 '''' '''') (NewEditor None)) = Inl IndexOutOfRange \<and>
   prevHistory (set_history (cursor 1 '''' '''') (NewEditor None))
     \<noteq> Inr (False, set_history (cursor 1 '''' '''') (NewEditor None))"
  by (simp add: prevHistory_def lastHistory_def go_sub_def wrap64_def ex_defs)

lemma nextHistory_session_found:
  assumes "first_match (histories ed) (max 0 (go_add (current (history (editorState ed))) 1))
             (prefix (history (editorState ed))) k"
  shows "nextHistory_session ed =
     Inr (True, set_history (jump k (histories ed ! nat k) (history (editorState ed))) ed)"
proof -
  from assms have k: "0 \<le> k" by (auto simp: first_match_iff)
  from assms have "firstHistory_loop (histories ed) (max 0 (go_add (current (history (editorState ed))) 1))
      (prefix (history (editorState ed))) = Inr (k, histories ed ! nat k)"
    by (rule firstHistory_loop_found) simp
  with k show ?thesis
    by (simp add: nextHistory_session_def firstHistory_def Let_def)
qed

lemma nextHistory_session_none:
  assumes "\<forall>j. max 0 (go_add (current (history (editorState ed))) 1) \<le> j \<and> j < int (length (histories ed))
             \<longrightarrow> \<not> HasPrefix (histories ed ! nat j) (prefix (history (editorState ed)))"
  shows "nextHistory_session ed = Inr (False, ed)"
proof -
  from assms have "firstHistory_loop (histories ed) (max 0 (go_add (current (history (editorState ed))) 1))
      (prefix (history (editorState ed))) = Inr (- 1, '''')"
    by (rule firstHistory_loop_none) simp
  then show ?thesis
    by (simp add: nextHistory_session_def firstHistory_def Let_def)
qed

text \<open>
  Claim C2. For every state, session history and store: if a store exists, \<open>current < -1\<close>
  and the store answers \<open>FirstCmd(cmdSeq + current + 1, prefix)\<close> with \<open>(i, l)\<close>,
  \<open>nextHistory\<close> jumps to \<open>(i - cmdSeq, l)\<close> and returns true. Otherwise, if \<open>k\<close> is the
  earliest session entry from index \<open>max(0, current + 1)\<close> on that starts with the prefix,
  it jumps to \<open>(k, histories[k])\<close> and returns true; and if no session entry from that
  index on starts with the prefix, the editor is unchanged and it returns false. It never
  panics. Sums and differences are Go's.
\<close>

theorem nextHistory_two_tiers:
  "(let h = history (editorState ed); hs = histories ed;
        frm = max 0 (go_add (current h) 1)
    in (\<forall>s i l. store ed = Some s \<and> current h < - 1 \<and>
            FirstCmd s (go_add (go_add (cmdSeq ed) (current h)) 1) (prefix h) = Inr (i, l) \<longrightarrow>
          nextHistory ed = Inr (True, set_history (jump (go_sub i (cmdSeq ed)) l h) ed)) \<and>
       (\<not> (\<exists>s i l. store ed = Some s \<and> current h < - 1 \<and>
            FirstCmd s (go_add (go_add (cmdSeq ed) (current h)) 1) (prefix h) = Inr (i, l)) \<longrightarrow>
          (\<forall>k. first_match hs frm (prefix h) k \<longrightarrow>
             nextHistory ed = Inr (True, set_history (jump k (hs ! nat k) h) ed)) \<and>
          ((\<forall>j. frm \<le> j \<and> j < int (length hs) \<longrightarrow> \<not> HasPrefix (hs ! nat j) (prefix h)) \<longrightarrow>
             nextHistory ed = Inr (False, ed))))"
  unfolding Let_def
proof (intro conjI allI impI)
  fix s i l
  assume "store ed = Some s \<and> current (history (editorState ed)) < - 1 \<and>
    FirstCmd s (go_add (go_add (cmdSeq ed) (current (history (editorState ed)))) 1)
      (prefix (history (editorState ed))) = Inr (i, l)"
  then show "nextHistory ed =
     Inr (True, set_history (jump (go_sub i (cmdSeq ed)) l (history (editorState ed))) ed)"
    by (simp add: nextHistory_def)
next
  fix k
  assume miss: "\<not> (\<exists>s i l. store ed = Some s \<and> current (history (editorState ed)) < - 1 \<and>
    FirstCmd s (go_add (go_add (cmdSeq ed) (current (history (editorState ed)))) 1)
      (prefix (history (editorState ed))) = Inr (i, l))"
  then have s: "nextHistory ed = nextHistory_session ed"
    by (auto simp: nextHistory_def Let_def split: option.splits sum.splits)
  assume "first_match (histories ed) (max 0 (go_add (current (history (editorState ed))) 1))
             (prefix (history (editorState ed))) k"
  with s show "nextHistory ed =
     Inr (True, set_history (jump k (histories ed ! nat k) (history (editorState ed))) ed)"
    by (simp add: nextHistory_session_found)
next
  assume miss: "\<not> (\<exists>s i l. store ed = Some s \<and> current (history (editorState ed)) < - 1 \<and>
    FirstCmd s (go_add (go_add (cmdSeq ed) (current (history (editorState ed)))) 1)
      (prefix (history (editorState ed))) = Inr (i, l))"
  then have s: "nextHistory ed = nextHistory_session ed"
    by (auto simp: nextHistory_def Let_def split: option.splits sum.splits)
  assume "\<forall>j. max 0 (go_add (current (history (editorState ed))) 1) \<le> j \<and> j < int (length (histories ed))
             \<longrightarrow> \<not> HasPrefix (histories ed ! nat j) (prefix (history (editorState ed)))"
  with s show "nextHistory ed = Inr (False, ed)"
    by (simp add: nextHistory_session_none)
qed

text \<open>
  The cases at concrete states: a store hit, a session hit without a store, a session hit
  after the store missed, and no match in either tier.
\<close>

theorem nextHistory_two_tiers_witness:
  "nextHistory (set_history (cursor (- 3) ''ls'' ''ls'') (NewEditor (Some store_example)))
     = Inr (True, set_history (cursor (- 2) ''ls'' ''ls -l'') (NewEditor (Some store_example))) \<and>
   nextHistory (set_history (cursor 0 ''ls'' ''ls'') session_example)
     = Inr (True, set_history (cursor 2 ''ls'' ''ls -la'') session_example) \<and>
   nextHistory (set_history (cursor (- 3) ''cd'' '''') ((NewEditor (Some store_example))\<lparr>histories := [''ls'', ''cd /tmp'']\<rparr>))
     = Inr (True, set_history (cursor 1 ''cd'' ''cd /tmp'') ((NewEditor (Some store_example))\<lparr>histories := [''ls'', ''cd /tmp'']\<rparr>)) \<and>
   nextHistory (set_history (cursor 2 ''ls'' ''ls -la'') session_example)
     = Inr (False, set_history (cursor 2 ''ls'' ''ls -la'') session_example)"
proof -
  let ?a = "set_history (cursor (- 3) ''ls'' ''ls'') (NewEditor (Some store_example))"
  let ?b = "set_history (cursor 0 ''ls'' ''ls'') session_example"
  let ?c = "set_history (cursor (- 3) ''cd'' '''') ((NewEditor (Some store_example))\<lparr>histories := [''ls'', ''cd /tmp'']\<rparr>)"
  let ?d = "set_history (cursor 2 ''ls'' ''ls -la'') session_example"
  have 1: "nextHistory ?a = Inr (True, set_history (cursor (- 2) ''ls'' ''ls -l'') (NewEditor (Some store_example)))"
    using nextHistory_two_tiers [of ?a]
    by (simp add: ex_defs go_add_def go_sub_def wrap64_def Let_def)
  have bm: "first_match (histories ?b) (max 0 (go_add (current (history (editorState ?b))) 1))
      (prefix (history (editorState ?b))) 2"
    unfolding first_match_iff
  proof (intro conjI allI impI)
    fix j :: int
    assume "max 0 (go_add (current (history (editorState ?b))) 1) \<le> j \<and> j < 2"
    then have "j = 1" by (simp add: ex_defs go_add_def wrap64_def)
    then show "\<not> HasPrefix (histories ?b ! nat j) (prefix (history (editorState ?b)))"
      by (simp add: ex_defs HasPrefix_def)
  qed (simp_all add: ex_defs HasPrefix_def go_add_def wrap64_def)
  have 2: "nextHistory ?b = Inr (True, set_history (cursor 2 ''ls'' ''ls -la'') session_example)"
    using nextHistory_two_tiers [of ?b] bm
    by (simp add: ex_defs go_add_def go_sub_def wrap64_def Let_def)
  have cm: "first_match (histories ?c) (max 0 (go_add (current (history (editorState ?c))) 1))
      (prefix (history (editorState ?c))) 1"
    unfolding first_match_iff
  proof (intro conjI allI impI)
    fix j :: int
    assume "max 0 (go_add (current (history (editorState ?c))) 1) \<le> j \<and> j < 1"
    then have "j = 0" by (simp add: ex_defs go_add_def wrap64_def)
    then show "\<not> HasPrefix (histories ?c ! nat j) (prefix (history (editorState ?c)))"
      by (simp add: ex_defs HasPrefix_def)
  qed (simp_all add: ex_defs HasPrefix_def go_add_def wrap64_def)
  have 3: "nextHistory ?c = Inr (True, set_history (cursor 1 ''cd'' ''cd /tmp'')
      ((NewEditor (Some store_example))\<lparr>histories := [''ls'', ''cd /tmp'']\<rparr>))"
    using nextHistory_two_tiers [of ?c] cm
    by (simp add: ex_defs go_add_def go_sub_def wrap64_def Let_def)
  have dm: "\<not> (\<exists>s i l. store ?d = Some s \<and> current (history (editorState ?d)) < - 1 \<and>
      FirstCmd s (go_add (go_add (cmdSeq ?d) (current (history (editorState ?d)))) 1)
        (prefix (history (editorState ?d))) = Inr (i, l))"
    by (simp add: ex_defs)
  have dn: "\<forall>j. max 0 (go_add (current (history (editorState ?d))) 1) \<le> j \<and>
      j < int (length (histories ?d)) \<longrightarrow>
      \<not> HasPrefix (histories ?d ! nat j) (prefix (history (editorState ?d)))"
    by (auto simp: ex_defs go_add_def wrap64_def)
  from nextHistory_two_tiers [of ?d] dm dn
  have 4: "nextHistory ?d = Inr (False, ?d)"
    unfolding Let_def by blast
  from 1 2 3 4 show ?thesis by simp
qed

text \<open>
  Claim C3, as amended. With the session history \<open>["ls", "cd /tmp", "ls -la"]\<close>, no store,
  the prefix \<open>"ls"\<close> and the cursor at \<open>current = 3\<close>, the length of the session history:
  the first \<open>prevHistory\<close> succeeds (at \<open>"ls -la"\<close>), the second yields the line \<open>"ls"\<close>, and
  the third returns false and leaves the cursor as it is.
\<close>

theorem prevHistory_ls_from_end:
  "prevHistory (set_history (cursor 3 ''ls'' l) session_example)
     = Inr (True, set_history (cursor 2 ''ls'' ''ls -la'') session_example) \<and>
   prevHistory (set_history (cursor 2 ''ls'' ''ls -la'') session_example)
     = Inr (True, set_history (cursor 0 ''ls'' ''ls'') session_example) \<and>
   prevHistory (set_history (cursor 0 ''ls'' ''ls'') session_example)
     = Inr (False, set_history (cursor 0 ''ls'' ''ls'') session_example)"
  by (simp add: prevHistory_def prevHistory_persistent_def lastHistory_def go_sub_def wrap64_def
      HasPrefix_def ex_defs)

text \<open>
  Claim C3 as stated, with the cursor at \<open>current = 0\<close>: the first \<open>prevHistory\<close> already
  returns false, since the session history is scanned only when \<open>current > 0\<close> and there
  is no store.
\<close>

theorem prevHistory_ls_from_zero_counterexample:
  "prevHistory (set_history (cursor 0 ''ls'' '''') session_example)
     = Inr (False, set_history (cursor 0 ''ls'' '''') session_example)"
  by (simp add: prevHistory_def prevHistory_persistent_def ex_defs)

section \<open>Accepting a completion\<close>

lemma acceptCompletion_selected:
  assumes "completion (editorState ed) = Some c" and "in_candidates c" and "dot_in_line ed"
  shows "acceptCompletion ed =
     Inr (ed\<lparr>editorState := (editorState ed)
       \<lparr>line := take (nat (dot (editorState ed))) (line (editorState ed)) @
                stext (source (candidates c ! nat (comp_current c))) @
                drop (nat (dot (editorState ed))) (line (editorState ed)),
        dot := dot (editorState ed) + int (length (stext (source (candidates c ! nat (comp_current c))))),
        completion := None, mode := modeInsert\<rparr>\<rparr>)"
  using assms
  by (simp add: acceptCompletion_def insertAtDot_def in_candidates_def dot_in_line_def Let_def)

lemma acceptCompletion_unselected:
  assumes "completion (editorState ed) = Some c" and "\<not> in_candidates c"
  shows "acceptCompletion ed =
     Inr (ed\<lparr>editorState := (editorState ed)\<lparr>completion := None, mode := modeInsert\<rparr>\<rparr>)"
  using assms
  by (auto simp add: acceptCompletion_def in_candidates_def)

text \<open>
  Claim C5, as amended. For every completion overlay whose selected candidate has the text
  \<open>"foo.txt"\<close>, accepting it in the buffer \<open>"cat "\<close> with the dot at 4 yields the buffer
  \<open>"cat foo.txt"\<close>, the dot at 11, Insert mode and no completion overlay. (The rule, that the
  text goes in at the dot and the dot moves past it, is \<open>acceptCompletion_selected\<close>.)
\<close>

theorem acceptCompletion_foo_txt:
  assumes "completion (editorState ed) = Some c"
    and "in_candidates c"
    and "stext (source (candidates c ! nat (comp_current c))) = ''foo.txt''"
    and "line (editorState ed) = ''cat ''"
    and "dot (editorState ed) = 4"
  shows "acceptCompletion ed =
     Inr (ed\<lparr>editorState := (editorState ed)
       \<lparr>line := ''cat foo.txt'', dot := 11, completion := None, mode := modeInsert\<rparr>\<rparr>)"
proof -
  from assms(4,5) have "dot_in_line ed" by (simp add: dot_in_line_def)
  from acceptCompletion_selected [OF assms(1,2) this] assms(3,4,5)
  show ?thesis by simp
qed

theorem acceptCompletion_foo_txt_witness:
  "acceptCompletion (completing ''cat '' 4 \<lparr>candidates = [candidate_of ''bar'', candidate_of ''foo.txt''], comp_current = 1\<rparr>)
     = Inr ((NewEditor None)\<lparr>editorState :=
         editorState_zero\<lparr>line := ''cat foo.txt'', dot := 11, mode := modeInsert, completion := None\<rparr>\<rparr>)"
  using acceptCompletion_foo_txt
    [of "completing ''cat '' 4 \<lparr>candidates = [candidate_of ''bar'', candidate_of ''foo.txt''], comp_current = 1\<rparr>"
        "\<lparr>candidates = [candidate_of ''bar'', candidate_of ''foo.txt''], comp_current = 1\<rparr>"]
  by (simp add: completing_def in_candidates_def candidate_of_def NewEditor_def editorState_zero_def)

text \<open>
  Claim C5 as stated, with the dot at 3: the text goes in before the blank, the buffer is
  \<open>"catfoo.txt "\<close> and the dot is at 10.
\<close>

theorem acceptCompletion_dot_3_counterexample:
  "acceptCompletion (completing ''cat '' 3 \<lparr>candidates = [candidate_of ''foo.txt''], comp_current = 0\<rparr>)
     = Inr ((NewEditor None)\<lparr>editorState :=
         editorState_zero\<lparr>line := ''catfoo.txt '', dot := 10, mode := modeInsert, completion := None\<rparr>\<rparr>)"
  by (simp add: acceptCompletion_def insertAtDot_def completing_def candidate_of_def NewEditor_def
      editorState_zero_def Let_def)

text \<open>
  Claim C10. For every completion overlay of an editing state: when \<open>current\<close> is not an
  index of the candidates, \<open>acceptCompletion\<close> does not read the list and leaves the line and
  the dot as they are; when it is, the index read is below the length of the list and the
  candidate's text goes in at the dot (the dot being within the line, as the data model
  has it). In both cases the overlay is cleared and the mode is Insert.
\<close>

theorem acceptCompletion_guarded:
  assumes "completion (editorState ed) = Some c"
  shows "(\<not> in_candidates c \<longrightarrow>
            acceptCompletion ed =
              Inr (ed\<lparr>editorState := (editorState ed)\<lparr>completion := None, mode := modeInsert\<rparr>\<rparr>)) \<and>
         (in_candidates c \<and> dot_in_line ed \<longrightarrow>
            nat (comp_current c) < length (candidates c) \<and>
            acceptCompletion ed =
              Inr (ed\<lparr>editorState := (editorState ed)
                \<lparr>line := take (nat (dot (editorState ed))) (line (editorState ed)) @
                         stext (source (candidates c ! nat (comp_current c))) @
                         drop (nat (dot (editorState ed))) (line (editorState ed)),
                 dot := dot (editorState ed) +
                        int (length (stext (source (candidates c ! nat (comp_current c))))),
                 completion := None, mode := modeInsert\<rparr>\<rparr>))"
proof (intro conjI impI)
  assume "\<not> in_candidates c"
  with assms show "acceptCompletion ed =
      Inr (ed\<lparr>editorState := (editorState ed)\<lparr>completion := None, mode := modeInsert\<rparr>\<rparr>)"
    by (rule acceptCompletion_unselected)
next
  assume a: "in_candidates c \<and> dot_in_line ed"
  then show "nat (comp_current c) < length (candidates c)"
    by (simp add: in_candidates_def nat_less_iff)
  from a assms show "acceptCompletion ed =
     Inr (ed\<lparr>editorState := (editorState ed)
       \<lparr>line := take (nat (dot (editorState ed))) (line (editorState ed)) @
                stext (source (candidates c ! nat (comp_current c))) @
                drop (nat (dot (editorState ed))) (line (editorState ed)),
        dot := dot (editorState ed) + int (length (stext (source (candidates c ! nat (comp_current c))))),
        completion := None, mode := modeInsert\<rparr>\<rparr>)"
    by (simp add: acceptCompletion_selected)
qed

theorem acceptCompletion_guarded_witness:
  "acceptCompletion (completing ''cat '' 4 \<lparr>candidates = [candidate_of ''foo.txt''], comp_current = 1\<rparr>)
     = Inr ((NewEditor None)\<lparr>editorState :=
         editorState_zero\<lparr>line := ''cat '', dot := 4, mode := modeInsert, completion := None\<rparr>\<rparr>) \<and>
   acceptCompletion (completing ''cat '' 4 \<lparr>candidates = [candidate_of ''foo.txt''], comp_current = - 1\<rparr>)
     = Inr ((NewEditor None)\<lparr>editorState :=
         editorState_zero\<lparr>line := ''cat '', dot := 4, mode := modeInsert, completion := None\<rparr>\<rparr>) \<and>
   acceptCompletion (completing ''cat '' 2 \<lparr>candidates = [candidate_of ''foo.txt''], comp_current = 0\<rparr>)
     = Inr ((NewEditor None)\<lparr>editorState :=
         editorState_zero\<lparr>line := ''cafoo.txtt '', dot := 9, mode := modeInsert, completion := None\<rparr>\<rparr>)"
proof -
  let ?c1 = "\<lparr>candidates = [candidate_of ''foo.txt''], comp_current = 1\<rparr>"
  let ?c2 = "\<lparr>candidates = [candidate_of ''foo.txt''], comp_current = - 1\<rparr>"
  let ?c3 = "\<lparr>candidates = [candidate_of ''foo.txt''], comp_current = 0\<rparr>"
  have 1: "completion (editorState (completing ''cat '' 4 ?c1)) = Some ?c1"
    and 2: "completion (editorState (completing ''cat '' 4 ?c2)) = Some ?c2"
    and 3: "completion (editorState (completing ''cat '' 2 ?c3)) = Some ?c3"
    by (simp_all add: completing_def)
  show ?thesis
    using acceptCompletion_guarded [OF 1] acceptCompletion_guarded [OF 2] acceptCompletion_guarded [OF 3]
    by (simp add: completing_def in_candidates_def dot_in_line_def candidate_of_def NewEditor_def
        editorState_zero_def)
qed

section \<open>The dot stays within the line\<close>

lemma insertAtDot_dot_in_line:
  assumes "dot_in_line ed"
  shows "\<exists>ed'. insertAtDot t ed = Inr ed' \<and> dot_in_line ed'"
  using assms by (auto simp: insertAtDot_def dot_in_line_def Let_def)

lemma acceptCompletion_dot_in_line:
  assumes "dot_in_line ed" and "completion (editorState ed) = Some c"
  shows "\<exists>ed'. acceptCompletion ed = Inr ed' \<and> dot_in_line ed'"
proof (cases "in_candidates c")
  case True
  from acceptCompletion_selected [OF assms(2) True assms(1)] assms(1)
  show ?thesis by (auto simp: dot_in_line_def)
next
  case False
  from acceptCompletion_unselected [OF assms(2) False] assms(1)
  show ?thesis by (auto simp: dot_in_line_def)
qed

lemma acceptHistory_dot_in_line: "dot_in_line (acceptHistory ed)"
  by (simp add: acceptHistory_def dot_in_line_def Let_def)

lemma finishReadLine_reset_dot_in_line: "dot_in_line (finishReadLine_reset ed)"
  by (simp add: finishReadLine_reset_def dot_in_line_def Let_def)

lemma finishReadLine_dot_in_line:
  "finishReadLine ev f acc ed = Inr (acc', ed') \<Longrightarrow> dot_in_line ed'"
  by (auto simp: finishReadLine_def dot_in_line_def Let_def editorState_zero_def
      split: sum.splits prod.splits)

text \<open>
  Claim C8. From a state with \<open>0 <= dot <= len(line)\<close>: \<open>insertAtDot\<close> with any text returns
  such a state, \<open>acceptCompletion\<close> with any overlay returns such a state, \<open>acceptHistory\<close>
  yields such a state, and so does the teardown, both where it moves the dot to the end of
  the line and in the state it leaves when it returns.
\<close>

theorem editing_keeps_dot_in_line:
  assumes "dot_in_line ed"
  shows "(\<forall>t. \<exists>ed'. insertAtDot t ed = Inr ed' \<and> dot_in_line ed') \<and>
         (\<forall>c. completion (editorState ed) = Some c \<longrightarrow>
              (\<exists>ed'. acceptCompletion ed = Inr ed' \<and> dot_in_line ed')) \<and>
         dot_in_line (acceptHistory ed) \<and>
         dot_in_line (finishReadLine_reset ed) \<and>
         (\<forall>ev f acc acc' ed'. finishReadLine ev f (acc :: LineRead) ed = Inr (acc', ed') \<longrightarrow>
              dot_in_line ed')"
proof (intro conjI allI impI)
  fix t
  from assms show "\<exists>ed'. insertAtDot t ed = Inr ed' \<and> dot_in_line ed'"
    by (rule insertAtDot_dot_in_line)
next
  fix c
  assume "completion (editorState ed) = Some c"
  with assms show "\<exists>ed'. acceptCompletion ed = Inr ed' \<and> dot_in_line ed'"
    by (rule acceptCompletion_dot_in_line)
next
  show "dot_in_line (acceptHistory ed)"
    by (rule acceptHistory_dot_in_line)
next
  show "dot_in_line (finishReadLine_reset ed)"
    by (rule finishReadLine_reset_dot_in_line)
next
  fix ev f and acc acc' :: LineRead and ed'
  assume "finishReadLine ev f acc ed = Inr (acc', ed')"
  then show "dot_in_line ed'"
    by (rule finishReadLine_dot_in_line)
qed

theorem editing_keeps_dot_in_line_witness:
  "dot_in_line (completing ''cat '' 4 \<lparr>candidates = [candidate_of ''foo.txt''], comp_current = 0\<rparr>) \<and>
   map_sum id dot_in_line
     (insertAtDot ''ls '' (completing ''cat '' 4 \<lparr>candidates = [candidate_of ''foo.txt''], comp_current = 0\<rparr>))
     = Inr True \<and>
   map_sum id dot_in_line
     (acceptCompletion (completing ''cat '' 4 \<lparr>candidates = [candidate_of ''foo.txt''], comp_current = 0\<rparr>))
     = Inr True \<and>
   dot_in_line (acceptHistory (completing ''cat '' 4 \<lparr>candidates = [candidate_of ''foo.txt''], comp_current = 0\<rparr>)) \<and>
   dot_in_line (finishReadLine_reset (completing ''cat '' 4 \<lparr>candidates = [candidate_of ''foo.txt''], comp_current = 0\<rparr>))"
proof -
  let ?c = "\<lparr>candidates = [candidate_of ''foo.txt''], comp_current = 0\<rparr>"
  let ?ed = "completing ''cat '' 4 ?c"
  have d: "dot_in_line ?ed"
    by (simp add: dot_in_line_def completing_def editorState_zero_def)
  have c: "completion (editorState ?ed) = Some ?c"
    by (simp add: completing_def)
  note k = editing_keeps_dot_in_line [OF d]
  from k obtain e1 where 1: "insertAtDot ''ls '' ?ed = Inr e1" "dot_in_line e1"
    by blast
  from k c obtain e2 where 2: "acceptCompletion ?ed = Inr e2" "dot_in_line e2"
    by blast
  from k have 3: "dot_in_line (acceptHistory ?ed)" "dot_in_line (finishReadLine_reset ?ed)"
    by blast+
  from d 1 2 3 show ?thesis
    by simp
qed

section \<open>Rendering changes the tokens and the tips only\<close>

lemma lexed_from_refl: "lexed_from ed ed"
  by (simp add: lexed_from_def)

lemma lexed_from_trans: "lexed_from a b \<Longrightarrow> lexed_from b c \<Longrightarrow> lexed_from a c"
  unfolding lexed_from_def
proof -
  assume ab: "b = a\<lparr>editorState := (editorState a)\<lparr>tokens := tokens (editorState b), tips := tips (editorState b)\<rparr>\<rparr>"
    and bc: "c = b\<lparr>editorState := (editorState b)\<lparr>tokens := tokens (editorState c), tips := tips (editorState c)\<rparr>\<rparr>"
  have "c = b\<lparr>editorState := (editorState b)\<lparr>tokens := tokens (editorState c), tips := tips (editorState c)\<rparr>\<rparr>"
    by (rule bc)
  also have "\<dots> = a\<lparr>editorState := (editorState a)\<lparr>tokens := tokens (editorState c), tips := tips (editorState c)\<rparr>\<rparr>"
    by (subst (1 2) ab) simp
  finally show "c = a\<lparr>editorState := (editorState a)\<lparr>tokens := tokens (editorState c), tips := tips (editorState c)\<rparr>\<rparr>" .
qed

lemma lexed_from_set_tokens: "lexed_from ed (set_tokens ts ed)"
  by (simp add: lexed_from_def set_tokens_def)

lemma lexed_from_pushTip: "lexed_from ed (pushTip tip ed)"
  by (simp add: lexed_from_def pushTip_def)

lemma lexed_from_colorToken: "lexed_from ed (colorToken cs nd i ed)"
proof (induction cs arbitrary: ed)
  case Nil
  show ?case by (simp add: lexed_from_refl)
next
  case (Cons colorist cs)
  show ?case
    by (simp, rule lexed_from_trans [OF lexed_from_set_tokens Cons.IH])
qed

lemma lexed_from_colorTokens: "lexed_from ed (colorTokens cs is ed)"
proof (induction "is" arbitrary: ed)
  case Nil
  show ?case by (simp add: lexed_from_refl)
next
  case (Cons i "is")
  show ?case
    by (simp, rule lexed_from_trans [OF lexed_from_colorToken Cons.IH])
qed

lemma lexed_from_relex:
  assumes "relex ev ed = Inr ed'"
  shows "lexed_from ed ed'"
proof -
  from assms obtain ed3 where
    e3: "lexed_from ed ed3" and
    e': "ed' = colorTokens (colorists ev) [0..<length (tokens (editorState ed3))] ed3"
    by (auto simp: relex_def Let_def split: option.splits sum.splits compile_error.splits
        intro: lexed_from_set_tokens lexed_from_trans [OF lexed_from_set_tokens lexed_from_trans [OF lexed_from_pushTip lexed_from_set_tokens]])
  from e3 lexed_from_colorTokens show ?thesis
    unfolding e' by (rule lexed_from_trans)
qed

lemma refresh_frame:
  assumes "refresh ev ed = Inr (err, ed')"
  shows "\<exists>ed1. lexed_from ed ed1 \<and>
           ed' = ed1\<lparr>term_file := term_file ed @ [WriterRefresh (editorState ed1)]\<rparr> \<and>
           err = writer_refresh ev (editorState ed1) (term_file ed)"
proof (cases "mode (editorState ed) \<noteq> modeCompletion")
  case True
  with assms obtain ed1 where r: "relex ev ed = Inr ed1"
    and e: "ed' = ed1\<lparr>term_file := term_file ed1 @ [WriterRefresh (editorState ed1)]\<rparr>"
          "err = writer_refresh ev (editorState ed1) (term_file ed1)"
    by (auto simp: refresh_def split: sum.splits)
  from r have l: "lexed_from ed ed1" by (rule lexed_from_relex)
  then have "term_file ed1 = term_file ed"
    by (subst l [unfolded lexed_from_def]) simp
  with l e show ?thesis by auto
next
  case False
  with assms have "ed' = ed\<lparr>term_file := term_file ed @ [WriterRefresh (editorState ed)]\<rparr>"
    and "err = writer_refresh ev (editorState ed) (term_file ed)"
    by (auto simp: refresh_def)
  with lexed_from_refl [of ed] show ?thesis by blast
qed

section \<open>What a read appends to the history\<close>

lemma lexed_from_same_history: "lexed_from ed ed' \<Longrightarrow> same_history ed ed'"
  unfolding lexed_from_def same_history_def
  by (erule ssubst) simp

lemma refresh_same_history:
  assumes "refresh ev ed = Inr (err, ed')"
  shows "same_history ed ed'"
proof -
  from refresh_frame [OF assms] obtain ed1 where
    "lexed_from ed ed1" "ed' = ed1\<lparr>term_file := term_file ed @ [WriterRefresh (editorState ed1)]\<rparr>"
    by blast
  then show ?thesis
    using lexed_from_same_history [of ed ed1] by (simp add: same_history_def)
qed

lemma appendHistory_appends:
  "histories (appendHistory l ed) = histories ed @ [l] \<and>
   store (appendHistory l ed) = map_option (AddCmd l) (store ed)"
  by (simp add: appendHistory_def Let_def split: option.splits)

lemma appendHistory_editorState: "editorState (appendHistory l ed) = editorState ed"
  by (simp add: appendHistory_def Let_def split: option.splits)

lemma lookupKey_history:
  assumes "bindings_keep_history ev"
  shows "lookupKey n ev k ed = Some (Inr fl) \<Longrightarrow>
     (case fl of Next ed' \<Rightarrow> same_history ed ed' | Return lr ed' \<Rightarrow> appended_iff_accepted lr ed ed')"
proof (induction n arbitrary: ed)
  case 0
  then show ?case by simp
next
  case (Suc n)
  show ?case
  proof (cases "keyBindings ev (mode (editorState ed))")
    case None
    with Suc.prems show ?thesis
      by (auto simp: same_history_def pushTip_def)
  next
    case (Some kb)
    let ?ed0 = "set_editorState ((editorState ed)\<lparr>lastKey := k\<rparr>) ed"
    from Suc.prems Some obtain fn where
      fn: "kb k = Some fn \<or> kb (DefaultBinding ev) = Some fn"
      and rest: "(case fn ?ed0 of
                  Inl pn \<Rightarrow> Some (Inl pn)
                | Inr ed1 \<Rightarrow>
                    (let act = nextAction (editorState ed1);
                         ed2 = set_editorState ((editorState ed1)\<lparr>nextAction := action_zero\<rparr>) ed1
                     in case actionType act of
                          noAction \<Rightarrow> Some (Inr (Next ed2))
                        | reprocessKey \<Rightarrow>
                            (case refresh ev ed2 of
                               Inl pn \<Rightarrow> Some (Inl pn)
                             | Inr (Some err, ed3) \<Rightarrow>
                                 Some (Inr (Return (LineRead_zero\<lparr>Err := Some err\<rparr>) ed3))
                             | Inr (None, ed3) \<Rightarrow> lookupKey n ev k ed3)
                        | exitReadLine \<Rightarrow>
                            (let lr = returnValue act
                             in if EOF lr = False \<and> Err lr = None \<and> Line lr \<noteq> ''''
                                then Some (Inr (Return lr (appendHistory (Line lr) ed2)))
                                else Some (Inr (Return lr ed2))))) = Some (Inr fl)"
      by (auto split: option.splits)
    from rest obtain ed1 where ed1: "fn ?ed0 = Inr ed1"
      by (auto split: sum.splits)
    from fn Some ed1 assms have "same_history ?ed0 ed1"
      unfolding bindings_keep_history_def same_history_def by blast
    then have h1: "same_history ed ed1"
      by (simp add: same_history_def set_editorState_def)
    define ed2 where "ed2 = set_editorState ((editorState ed1)\<lparr>nextAction := action_zero\<rparr>) ed1"
    from h1 have h2: "same_history ed ed2"
      by (simp add: same_history_def set_editorState_def ed2_def)
    show ?thesis
    proof (cases "actionType (nextAction (editorState ed1))")
      case noAction
      with rest ed1 h2 show ?thesis
        by (auto simp: Let_def ed2_def)
    next
      case reprocessKey
      with rest ed1 have r: "(case refresh ev ed2 of
                               Inl pn \<Rightarrow> Some (Inl pn)
                             | Inr (Some err, ed3) \<Rightarrow>
                                 Some (Inr (Return (LineRead_zero\<lparr>Err := Some err\<rparr>) ed3))
                             | Inr (None, ed3) \<Rightarrow> lookupKey n ev k ed3) = Some (Inr fl)"
        by (simp add: Let_def ed2_def)
      then obtain err ed3 where rf: "refresh ev ed2 = Inr (err, ed3)"
        by (auto split: sum.splits)
      from rf have h3: "same_history ed2 ed3" by (rule refresh_same_history)
      with h2 have h3': "same_history ed ed3" by (simp add: same_history_def)
      show ?thesis
      proof (cases err)
        case None
        with r rf have "lookupKey n ev k ed3 = Some (Inr fl)" by simp
        from Suc.IH [OF this] h3' show ?thesis
          by (auto simp: same_history_def appended_iff_accepted_def split: flow.splits)
      next
        case (Some e)
        with r rf h3' show ?thesis
          by (auto simp: appended_iff_accepted_def accepted_def same_history_def)
      qed
    next
      case exitReadLine
      with rest ed1 h2 show ?thesis
        using appendHistory_appends [of "Line (returnValue (nextAction (editorState ed1)))" ed2]
        by (auto simp: Let_def ed2_def [symmetric] appended_iff_accepted_def accepted_def same_history_def
            split: if_splits)
    qed
  qed
qed

lemma handleEvent_history:
  assumes "bindings_keep_history ev" and "handleEvent fuel ev e ed = Some (Inr fl)"
  shows "case fl of Next ed' \<Rightarrow> same_history ed ed' | Return lr ed' \<Rightarrow> appended_iff_accepted lr ed ed'"
proof (cases e)
  case (IsExternalReady m)
  with assms(2) show ?thesis by (auto simp: same_history_def set_editorState_def)
next
  case (SignalReceived sg)
  with assms(2) show ?thesis
    by (cases sg) (auto simp: same_history_def set_editorState_def pushTip_def)
next
  case (OneReadReady r)
  show ?thesis
  proof (cases "or_Err r = None \<and> or_CPR r = invalidPos ev")
    case True
    with assms(2) OneReadReady have "lookupKey fuel ev (or_Key r) ed = Some (Inr fl)" by simp
    with assms(1) show ?thesis by (rule lookupKey_history)
  next
    case False
    with assms(2) OneReadReady show ?thesis
      by (auto simp: same_history_def pushTip_def split: option.splits if_splits)
  qed
qed

lemma loopHead_history:
  assumes "loopHead ev pf rpf ed = Inr fl"
  shows "case fl of Next ed' \<Rightarrow> same_history ed ed'
         | Return lr ed' \<Rightarrow> same_history ed ed' \<and> \<not> accepted lr"
proof -
  let ?ed1 = "set_editorState ((editorState ed)\<lparr>prompt := pf ed\<rparr>) ed"
  let ?ed2 = "set_editorState ((editorState ?ed1)\<lparr>rprompt := rpf ?ed1\<rparr>) ?ed1"
  from assms obtain err ed3 where rf: "refresh ev ?ed2 = Inr (err, ed3)"
    by (auto simp: loopHead_def Let_def split: sum.splits)
  from rf have "same_history ?ed2 ed3" by (rule refresh_same_history)
  then have h: "same_history ed ed3" by (simp add: same_history_def set_editorState_def)
  from assms rf h show ?thesis
    by (cases err) (auto simp: loopHead_def Let_def same_history_def set_editorState_def accepted_def)
qed

lemma mainLoop_history:
  assumes "bindings_keep_history ev"
  shows "mainLoop fuel ev pf rpf es ed = Some (Inr (lr, ed')) \<Longrightarrow> appended_iff_accepted lr ed ed'"
proof (induction es arbitrary: ed)
  case Nil
  then obtain fl where lh: "loopHead ev pf rpf ed = Inr fl"
    by (auto split: sum.splits)
  from loopHead_history [OF lh] Nil lh show ?case
    by (auto simp: appended_iff_accepted_def same_history_def split: flow.splits)
next
  case (Cons e es)
  then obtain fl where lh: "loopHead ev pf rpf ed = Inr fl"
    by (auto split: sum.splits)
  show ?case
  proof (cases fl)
    case (Return lr1 ed1)
    with loopHead_history [OF lh] Cons.prems lh show ?thesis
      by (auto simp: appended_iff_accepted_def same_history_def)
  next
    case (Next ed1)
    with loopHead_history [OF lh] have h1: "same_history ed ed1" by simp
    from Cons.prems lh Next obtain fl2 where he: "handleEvent fuel ev e ed1 = Some (Inr fl2)"
      by (auto split: option.splits sum.splits)
    show ?thesis
    proof (cases fl2)
      case (Return lr2 ed2)
      with handleEvent_history [OF assms he] Cons.prems lh Next he h1 show ?thesis
        by (auto simp: appended_iff_accepted_def same_history_def)
    next
      case n2: (Next ed2)
      with handleEvent_history [OF assms he] have h2: "same_history ed1 ed2" by simp
      from Cons.prems lh Next he n2 have "mainLoop fuel ev pf rpf es ed2 = Some (Inr (lr, ed'))"
        by simp
      from Cons.IH [OF this] h1 h2 show ?thesis
        by (auto simp: appended_iff_accepted_def same_history_def)
    qed
  qed
qed

lemma finishReadLine_history:
  assumes "finishReadLine ev f acc ed = Inr (acc', ed')"
  shows "same_history ed ed'"
proof -
  from assms obtain err ed1 where rf: "refresh ev (finishReadLine_reset ed) = Inr (err, ed1)"
    by (auto simp: finishReadLine_def split: sum.splits)
  from rf have "same_history (finishReadLine_reset ed) ed1" by (rule refresh_same_history)
  then have "same_history ed ed1" by (simp add: same_history_def finishReadLine_reset_def Let_def)
  with assms rf show ?thesis
    by (auto simp: finishReadLine_def Let_def same_history_def)
qed

lemma startReadLine_history: "same_history ed (snd (startReadLine ev ed))"
  by (auto simp: startReadLine_def same_history_def Let_def split: prod.splits sum.splits)

lemma addError_Line_EOF: "Line (addError e lr) = Line lr \<and> EOF (addError e lr) = EOF lr"
  by (simp add: addError_def split: option.splits)

lemma addError_no_error: "Err (addError e lr) = None \<Longrightarrow> addError e lr = lr"
  by (cases e; cases "Err lr") (auto simp: addError_def)

lemma addError_Some_error: "Err (addError (Some x) lr) \<noteq> None"
  by (cases "Err lr") (auto simp: addError_def)

lemma finishReadLine_no_error:
  assumes "finishReadLine ev addError lr ed = Inr (lr', ed')" and "Err lr' = None"
  shows "lr' = lr"
  using assms
  by (auto simp: finishReadLine_def Let_def addError_Some_error split: sum.splits option.splits
      dest: addError_no_error)

lemma finishReadLine_addError_result:
  assumes "finishReadLine ev addError lr ed = Inr (lr', ed')"
  shows "Line lr' = Line lr \<and> EOF lr' = EOF lr"
  using assms
  by (auto simp: finishReadLine_def Let_def addError_Line_EOF split: sum.splits option.splits)

text \<open>
  What the loop appends. With key bindings that leave the session history and the store
  alone: when the loop of \<open>ReadLine\<close> returns a result, the line of the result has been appended once to the
  session history, and handed once to \<open>AddCmd\<close> if there is a store, if and only if the result
  carries a non-empty \<open>Line\<close> with \<open>Err\<close> nil and \<open>EOF\<close> false; otherwise nothing has been
  appended. The result is the one that the \<open>exitReadLine\<close> action carries, or an error of
  the render. The teardown that follows appends nothing and keeps \<open>Line\<close> and \<open>EOF\<close>; it can
  only add an error to \<open>Err\<close>, so that a result returned with \<open>Err\<close> nil is the one the loop
  returned. A failed setup appends nothing. This is about the result the loop returns; of
  the result that \<open>ReadLine\<close> returns after the teardown it holds as long as the teardown
  adds no error.
\<close>

theorem ReadLine_appends_iff_accepted:
  assumes "bindings_keep_history ev"
  shows "(\<forall>lr ed'. mainLoop fuel ev pf rpf es ed = Some (Inr (lr, ed')) \<longrightarrow>
            appended_iff_accepted lr ed ed') \<and>
         (\<forall>ed1 lr ed2 lr' ed3.
            startReadLine ev (ReadLine_begin ed) = (None, ed1) \<and>
            mainLoop fuel ev pf rpf es ed1 = Some (Inr (lr, ed2)) \<and>
            finishReadLine ev addError lr ed2 = Inr (lr', ed3) \<longrightarrow>
              ReadLine fuel ev pf rpf es ed = Some (Inr (lr', ed3)) \<and>
              appended_iff_accepted lr ed ed3 \<and> Line lr' = Line lr \<and> EOF lr' = EOF lr \<and>
              (Err lr' = None \<longrightarrow> lr' = lr)) \<and>
         (\<forall>err ed1.
            startReadLine ev (ReadLine_begin ed) = (Some err, ed1) \<longrightarrow>
              ReadLine fuel ev pf rpf es ed = Some (Inr (LineRead_zero\<lparr>Err := Some err\<rparr>, ed1)) \<and>
              histories ed1 = histories ed \<and> store ed1 = store ed)"
proof (intro conjI allI impI)
  fix lr ed'
  assume "mainLoop fuel ev pf rpf es ed = Some (Inr (lr, ed'))"
  with assms show "appended_iff_accepted lr ed ed'"
    by (rule mainLoop_history)
next
  fix ed1 lr ed2 lr' ed3
  assume a: "startReadLine ev (ReadLine_begin ed) = (None, ed1) \<and>
            mainLoop fuel ev pf rpf es ed1 = Some (Inr (lr, ed2)) \<and>
            finishReadLine ev addError lr ed2 = Inr (lr', ed3)"
  then show "ReadLine fuel ev pf rpf es ed = Some (Inr (lr', ed3))"
    by (simp add: ReadLine_def)
  from a have "finishReadLine ev addError lr ed2 = Inr (lr', ed3)" by simp
  then show "Line lr' = Line lr" "EOF lr' = EOF lr"
    by (simp_all add: finishReadLine_addError_result)
  from a startReadLine_history [of "ReadLine_begin ed" ev]
  have h1: "same_history ed ed1"
    by (simp add: same_history_def ReadLine_begin_def)
  from a assms have h2: "appended_iff_accepted lr ed1 ed2"
    using mainLoop_history by blast
  from a have "finishReadLine ev addError lr ed2 = Inr (lr', ed3)" by simp
  then have h3: "same_history ed2 ed3"
    by (rule finishReadLine_history)
  from h1 h2 h3 show "appended_iff_accepted lr ed ed3"
    by (simp add: same_history_def appended_iff_accepted_def)
  assume "Err lr' = None"
  with a show "lr' = lr"
    using finishReadLine_no_error by blast
next
  fix err ed1
  assume a: "startReadLine ev (ReadLine_begin ed) = (Some err, ed1)"
  then show "ReadLine fuel ev pf rpf es ed = Some (Inr (LineRead_zero\<lparr>Err := Some err\<rparr>, ed1))"
    by (simp add: ReadLine_def)
  from a startReadLine_history [of "ReadLine_begin ed" ev]
  show "histories ed1 = histories ed" "store ed1 = store ed"
    by (simp_all add: same_history_def ReadLine_begin_def)
qed

lemma env_example_keeps_history: "bindings_keep_history env_example"
  unfolding bindings_keep_history_def
  by (auto simp: env_example_def accept_line_def end_of_file_def insert_key_def set_nextAction_def
      insertAtDot_def Let_def split: if_splits)

theorem ReadLine_appends_iff_accepted_witness:
  "bindings_keep_history env_example \<and>
   outcome read_ls = Some (\<lparr>Line = ''ls'', EOF = False, Err = None\<rparr>, [''ls''], Some [''ls'']) \<and>
   outcome read_eof = Some (\<lparr>Line = '''', EOF = True, Err = None\<rparr>, [], Some [])"
proof -
  let ?ed = "NewEditor (Some store_example)"
  let ?es1 = "[key_event (Key 108 0), key_event (Key 115 0), key_event Enter]"
  let ?es2 = "[key_event (Key 108 0), key_event CtrlD]"
  let ?lr1 = "\<lparr>Line = ''ls'', EOF = False, Err = None\<rparr>"
  let ?lr2 = "\<lparr>Line = '''', EOF = True, Err = None\<rparr>"
  define ed1 where "ed1 = snd (startReadLine env_example (ReadLine_begin ?ed))"
  define a2 where "a2 = snd (projr (the (mainLoop 1 env_example no_prompt no_prompt ?es1 ed1)))"
  define a3 where "a3 = snd (projr (finishReadLine env_example addError ?lr1 a2))"
  define b2 where "b2 = snd (projr (the (mainLoop 1 env_example no_prompt no_prompt ?es2 ed1)))"
  define b3 where "b3 = snd (projr (finishReadLine env_example addError ?lr2 b2))"
  have s: "startReadLine env_example (ReadLine_begin ?ed) = (None, ed1)"
    unfolding ed1_def by (simp add: run_defs Let_def)
  have am: "mainLoop 1 env_example no_prompt no_prompt ?es1 ed1 = Some (Inr (?lr1, a2))"
    unfolding a2_def ed1_def by (simp add: run_defs Let_def store_example_def)
  have af: "finishReadLine env_example addError ?lr1 a2 = Inr (?lr1, a3)"
    unfolding a3_def a2_def ed1_def by (simp add: run_defs Let_def store_example_def)
  have bm: "mainLoop 1 env_example no_prompt no_prompt ?es2 ed1 = Some (Inr (?lr2, b2))"
    unfolding b2_def ed1_def by (simp add: run_defs Let_def store_example_def)
  have bf: "finishReadLine env_example addError ?lr2 b2 = Inr (?lr2, b3)"
    unfolding b3_def b2_def ed1_def by (simp add: run_defs Let_def store_example_def)
  note inst = ReadLine_appends_iff_accepted [OF env_example_keeps_history, THEN conjunct2, THEN conjunct1, rule_format]
  from inst [OF conjI [OF s conjI [OF am af]]]
  have a: "read_ls = Some (Inr (?lr1, a3))" "appended_iff_accepted ?lr1 ?ed a3"
    by (simp_all add: read_ls_def)
  from inst [OF conjI [OF s conjI [OF bm bf]]]
  have b: "read_eof = Some (Inr (?lr2, b3))" "appended_iff_accepted ?lr2 ?ed b3"
    by (simp_all add: read_eof_def)
  from a(2) have "histories a3 = [''ls''] \<and> map_option added (store a3) = Some [''ls'']"
    by (simp add: appended_iff_accepted_def accepted_def NewEditor_def AddCmd_def store_example_def)
  then have 1: "outcome read_ls = Some (?lr1, [''ls''], Some [''ls''])"
    unfolding outcome_def a(1) by simp
  from b(2) have "histories b3 = [] \<and> map_option added (store b3) = Some []"
    by (simp add: appended_iff_accepted_def accepted_def NewEditor_def store_example_def)
  then have 2: "outcome read_eof = Some (?lr2, [], Some [])"
    unfolding outcome_def b(1) by simp
  from env_example_keeps_history 1 2 show ?thesis by simp
qed

text \<open>
  Claim C4 at a failing input. Enter accepts the line \<open>"ls"\<close>, which is appended to the
  session history and handed to the store, and then the terminal cannot be restored: the
  read ends with \<open>Err\<close> set in what it returns, and yet it has appended an entry.
\<close>

theorem ReadLine_error_after_append:
  "outcome (ReadLine 1 env_restore_fails no_prompt no_prompt
      [key_event (Key 108 0), key_event (Key 115 0), key_event Enter]
      (NewEditor (Some store_example)))
   = Some (\<lparr>Line = ''ls'', EOF = False,
            Err = Some (ErrMsg ''can't restore terminal attribute: EIO'')\<rparr>,
           [''ls''], Some [''ls''])"
  by (simp add: outcome_def env_restore_fails_def run_defs store_example_def Let_def)

section \<open>An interrupt\<close>

text \<open>
  Claim C6. For every state of the editor, taking an interrupt from the \<open>select\<close> leaves the
  zero editing state (empty line, dot 0, Insert mode, no overlay, no tips) except for
  \<open>savedTermios\<close> and \<open>isExternal\<close>, which keep their values; the session history, the store
  and the operations on the terminal are as before (nothing is appended, the terminal is not
  set up again); and the loop goes on with its next pass on that state instead of returning.
\<close>

theorem interrupt_starts_over:
  "(let ed' = ed\<lparr>editorState :=
                 editorState_zero\<lparr>savedTermios := savedTermios (editorState ed),
                                   isExternal := isExternal (editorState ed)\<rparr>\<rparr>
    in handleEvent fuel ev (SignalReceived SIGINT) ed = Some (Inr (Next ed')) \<and>
       line (editorState ed') = '''' \<and> dot (editorState ed') = 0 \<and>
       mode (editorState ed') = modeInsert \<and> completion (editorState ed') = None \<and>
       navigation (editorState ed') = None \<and> tips (editorState ed') = [] \<and>
       savedTermios (editorState ed') = savedTermios (editorState ed) \<and>
       isExternal (editorState ed') = isExternal (editorState ed) \<and>
       histories ed' = histories ed \<and> store ed' = store ed \<and> term_file ed' = term_file ed) \<and>
   mainLoop fuel ev pf rpf (SignalReceived SIGINT # es) ed0 =
     (case loopHead ev pf rpf ed0 of
        Inl pn \<Rightarrow> Some (Inl pn)
      | Inr (Return lr ed1) \<Rightarrow> Some (Inr (lr, ed1))
      | Inr (Next ed1) \<Rightarrow>
          mainLoop fuel ev pf rpf es
            (ed1\<lparr>editorState :=
                 editorState_zero\<lparr>savedTermios := savedTermios (editorState ed1),
                                   isExternal := isExternal (editorState ed1)\<rparr>\<rparr>))"
  by (simp add: Let_def set_editorState_def editorState_zero_def split: sum.splits flow.splits)

text \<open>
  An interrupted read at work: \<open>l\<close>, an interrupt, \<open>s\<close> and Enter return the line \<open>"s"\<close>.
\<close>

lemma interrupt_example:
  "outcome (ReadLine 1 env_example no_prompt no_prompt
      [key_event (Key 108 0), SignalReceived SIGINT, key_event (Key 115 0), key_event Enter]
      (NewEditor None))
   = Some (\<lparr>Line = ''s'', EOF = False, Err = None\<rparr>, [''s''], None)"
  by (simp add: outcome_def run_defs Let_def)

section \<open>The teardown\<close>

lemma lexed_from_same_termios: "lexed_from ed ed' \<Longrightarrow> same_termios ed ed'"
  unfolding lexed_from_def same_termios_def
  by (erule ssubst) simp

lemma refresh_same_termios:
  assumes "refresh ev ed = Inr (err, ed')"
  shows "same_termios ed ed'"
proof -
  from refresh_frame [OF assms] obtain ed1 where
    "lexed_from ed ed1" "ed' = ed1\<lparr>term_file := term_file ed @ [WriterRefresh (editorState ed1)]\<rparr>"
    by blast
  then show ?thesis
    using lexed_from_same_termios [of ed ed1] by (simp add: same_termios_def)
qed

lemma lookupKey_termios:
  assumes "bindings_keep_termios ev"
  shows "lookupKey n ev k ed = Some (Inr fl) \<Longrightarrow>
     (case fl of Next ed' \<Rightarrow> same_termios ed ed' | Return lr ed' \<Rightarrow> same_termios ed ed')"
proof (induction n arbitrary: ed)
  case 0
  then show ?case by simp
next
  case (Suc n)
  show ?case
  proof (cases "keyBindings ev (mode (editorState ed))")
    case None
    with Suc.prems show ?thesis
      by (auto simp: same_termios_def pushTip_def)
  next
    case (Some kb)
    let ?ed0 = "set_editorState ((editorState ed)\<lparr>lastKey := k\<rparr>) ed"
    from Suc.prems Some obtain fn where
      fn: "kb k = Some fn \<or> kb (DefaultBinding ev) = Some fn"
      and rest: "(case fn ?ed0 of
                  Inl pn \<Rightarrow> Some (Inl pn)
                | Inr ed1 \<Rightarrow>
                    (let act = nextAction (editorState ed1);
                         ed2 = set_editorState ((editorState ed1)\<lparr>nextAction := action_zero\<rparr>) ed1
                     in case actionType act of
                          noAction \<Rightarrow> Some (Inr (Next ed2))
                        | reprocessKey \<Rightarrow>
                            (case refresh ev ed2 of
                               Inl pn \<Rightarrow> Some (Inl pn)
                             | Inr (Some err, ed3) \<Rightarrow>
                                 Some (Inr (Return (LineRead_zero\<lparr>Err := Some err\<rparr>) ed3))
                             | Inr (None, ed3) \<Rightarrow> lookupKey n ev k ed3)
                        | exitReadLine \<Rightarrow>
                            (let lr = returnValue act
                             in if EOF lr = False \<and> Err lr = None \<and> Line lr \<noteq> ''''
                                then Some (Inr (Return lr (appendHistory (Line lr) ed2)))
                                else Some (Inr (Return lr ed2))))) = Some (Inr fl)"
      by (auto split: option.splits)
    from rest obtain ed1 where ed1: "fn ?ed0 = Inr ed1"
      by (auto split: sum.splits)
    from fn Some ed1 assms have "same_termios ?ed0 ed1"
      unfolding bindings_keep_termios_def same_termios_def by blast
    then have h1: "same_termios ed ed1"
      by (simp add: same_termios_def set_editorState_def)
    define ed2 where "ed2 = set_editorState ((editorState ed1)\<lparr>nextAction := action_zero\<rparr>) ed1"
    from h1 have h2: "same_termios ed ed2"
      by (simp add: same_termios_def set_editorState_def ed2_def)
    show ?thesis
    proof (cases "actionType (nextAction (editorState ed1))")
      case noAction
      with rest ed1 h2 show ?thesis
        by (auto simp: Let_def ed2_def)
    next
      case reprocessKey
      with rest ed1 have r: "(case refresh ev ed2 of
                               Inl pn \<Rightarrow> Some (Inl pn)
                             | Inr (Some err, ed3) \<Rightarrow>
                                 Some (Inr (Return (LineRead_zero\<lparr>Err := Some err\<rparr>) ed3))
                             | Inr (None, ed3) \<Rightarrow> lookupKey n ev k ed3) = Some (Inr fl)"
        by (simp add: Let_def ed2_def)
      then obtain err ed3 where rf: "refresh ev ed2 = Inr (err, ed3)"
        by (auto split: sum.splits)
      from rf have h3: "same_termios ed2 ed3" by (rule refresh_same_termios)
      with h2 have h3': "same_termios ed ed3" by (simp add: same_termios_def)
      show ?thesis
      proof (cases err)
        case None
        with r rf have "lookupKey n ev k ed3 = Some (Inr fl)" by simp
        from Suc.IH [OF this] h3' show ?thesis
          by (auto simp: same_termios_def split: flow.splits)
      next
        case (Some e)
        with r rf h3' show ?thesis
          by (auto simp: same_termios_def)
      qed
    next
      case exitReadLine
      with rest ed1 h2 show ?thesis
        by (auto simp: Let_def ed2_def [symmetric] same_termios_def appendHistory_editorState
            split: if_splits)
    qed
  qed
qed

lemma handleEvent_termios:
  assumes "bindings_keep_termios ev" and "handleEvent fuel ev e ed = Some (Inr fl)"
  shows "case fl of Next ed' \<Rightarrow> same_termios ed ed' | Return lr ed' \<Rightarrow> same_termios ed ed'"
proof (cases e)
  case (IsExternalReady m)
  with assms(2) show ?thesis by (auto simp: same_termios_def set_editorState_def)
next
  case (SignalReceived sg)
  with assms(2) show ?thesis
    by (cases sg) (auto simp: same_termios_def set_editorState_def pushTip_def)
next
  case (OneReadReady r)
  show ?thesis
  proof (cases "or_Err r = None \<and> or_CPR r = invalidPos ev")
    case True
    with assms(2) OneReadReady have "lookupKey fuel ev (or_Key r) ed = Some (Inr fl)" by simp
    with assms(1) show ?thesis by (rule lookupKey_termios)
  next
    case False
    with assms(2) OneReadReady show ?thesis
      by (auto simp: same_termios_def pushTip_def split: option.splits if_splits)
  qed
qed

lemma loopHead_termios:
  assumes "loopHead ev pf rpf ed = Inr fl"
  shows "case fl of Next ed' \<Rightarrow> same_termios ed ed' | Return lr ed' \<Rightarrow> same_termios ed ed'"
proof -
  let ?ed1 = "set_editorState ((editorState ed)\<lparr>prompt := pf ed\<rparr>) ed"
  let ?ed2 = "set_editorState ((editorState ?ed1)\<lparr>rprompt := rpf ?ed1\<rparr>) ?ed1"
  from assms obtain err ed3 where rf: "refresh ev ?ed2 = Inr (err, ed3)"
    by (auto simp: loopHead_def Let_def split: sum.splits)
  from rf have "same_termios ?ed2 ed3" by (rule refresh_same_termios)
  then have h: "same_termios ed ed3" by (simp add: same_termios_def set_editorState_def)
  from assms rf h show ?thesis
    by (cases err) (auto simp: loopHead_def Let_def same_termios_def set_editorState_def)
qed

lemma mainLoop_termios:
  assumes "bindings_keep_termios ev"
  shows "mainLoop fuel ev pf rpf es ed = Some (Inr (lr, ed')) \<Longrightarrow> same_termios ed ed'"
proof (induction es arbitrary: ed)
  case Nil
  then obtain fl where lh: "loopHead ev pf rpf ed = Inr fl"
    by (auto split: sum.splits)
  from loopHead_termios [OF lh] Nil lh show ?case
    by (auto split: flow.splits)
next
  case (Cons e es)
  then obtain fl where lh: "loopHead ev pf rpf ed = Inr fl"
    by (auto split: sum.splits)
  show ?case
  proof (cases fl)
    case (Return lr1 ed1)
    with loopHead_termios [OF lh] Cons.prems lh show ?thesis
      by auto
  next
    case (Next ed1)
    with loopHead_termios [OF lh] have h1: "same_termios ed ed1" by simp
    from Cons.prems lh Next obtain fl2 where he: "handleEvent fuel ev e ed1 = Some (Inr fl2)"
      by (auto split: option.splits sum.splits)
    show ?thesis
    proof (cases fl2)
      case (Return lr2 ed2)
      with handleEvent_termios [OF assms he] Cons.prems lh Next he h1 show ?thesis
        by (auto simp: same_termios_def)
    next
      case n2: (Next ed2)
      with handleEvent_termios [OF assms he] have h2: "same_termios ed1 ed2" by simp
      from Cons.prems lh Next he n2 have "mainLoop fuel ev pf rpf es ed2 = Some (Inr (lr, ed'))"
        by simp
      from Cons.IH [OF this] h1 h2 show ?thesis
        by (auto simp: same_termios_def)
    qed
  qed
qed

lemma startReadLine_failure:
  assumes "startReadLine ev ed = (Some err, ed1)"
  shows "editorState ed1 = editorState ed \<and>
         (term_file ed1 = term_file ed @ [TermGetAttr] \<or>
          (\<exists>raw. term_file ed1 = term_file ed @ [TermGetAttr, TermSetAttr (Some raw)]))"
  using assms
  by (auto simp: startReadLine_def setupTerminal_def Let_def split: sum.splits option.splits prod.splits)

lemma startReadLine_success:
  assumes "startReadLine ev ed = (None, ed1)"
  shows "\<exists>saved. NewTermiosFromFd ev (term_file ed) = Inr saved \<and>
           savedTermios (editorState ed1) = Some saved"
  using assms
  by (auto simp: startReadLine_def setupTerminal_def Let_def split: sum.splits option.splits prod.splits)

lemma finishReadLine_steps:
  assumes "refresh ev (finishReadLine_reset ed) = Inr (rerr, ed1)"
  shows "finishReadLine ev f acc ed =
     Inr (case ApplyToFd ev (savedTermios (editorState ed))
                 (term_file ed1 @ [TermWrite [CHR 0x0A], ReaderQuit, TermWrite autowrap_on]) of
            None \<Rightarrow> f rerr acc
          | Some e \<Rightarrow> f (Some (ErrMsg (''can't restore terminal attribute: '' @ errorString e))) (f rerr acc),
          ed1\<lparr>term_file := term_file ed1 @ [TermWrite [CHR 0x0A], ReaderQuit, TermWrite autowrap_on,
                                           TermSetAttr (savedTermios (editorState ed))],
              editorState := editorState_zero\<rparr>)"
proof -
  from assms have "same_termios (finishReadLine_reset ed) ed1" by (rule refresh_same_termios)
  then have "savedTermios (editorState ed1) = savedTermios (editorState ed)"
    by (simp add: same_termios_def finishReadLine_reset_def Let_def)
  with assms show ?thesis
    by (simp add: finishReadLine_def Let_def)
qed

text \<open>
  Claim C7. With key bindings that leave \<open>savedTermios\<close> alone. If the setup fails, \<open>ReadLine\<close>
  returns its error, \<open>savedTermios\<close> is nil, and nothing was done to the terminal after the
  setup's own attempt: no teardown. If the setup succeeds and the loop returns, then
  whatever the final render and the restoration report, the teardown renders, writes the
  newline, stops the reader, turns autowrap on and applies the settings that the setup
  had read from the terminal, in this order; the errors of the render and of the
  restoration are added to the result's \<open>Err\<close>. (A panic of the final render is not an error
  report: it unwinds the teardown.)
\<close>

theorem teardown_restores_iff_setup:
  assumes "bindings_keep_termios ev"
  shows
    "(\<forall>err ed1. startReadLine ev (ReadLine_begin ed) = (Some err, ed1) \<longrightarrow>
        ReadLine fuel ev pf rpf es ed = Some (Inr (LineRead_zero\<lparr>Err := Some err\<rparr>, ed1)) \<and>
        savedTermios (editorState ed1) = None \<and>
        (term_file ed1 = term_file ed @ [WriterResetOldBuf, ReaderRun, TermGetAttr] \<or>
         (\<exists>raw. term_file ed1 =
            term_file ed @ [WriterResetOldBuf, ReaderRun, TermGetAttr, TermSetAttr (Some raw)]))) \<and>
     (\<forall>ed1 lr ed2 rerr ed3.
        startReadLine ev (ReadLine_begin ed) = (None, ed1) \<and>
        mainLoop fuel ev pf rpf es ed1 = Some (Inr (lr, ed2)) \<and>
        refresh ev (finishReadLine_reset ed2) = Inr (rerr, ed3) \<longrightarrow>
        (\<exists>saved.
           NewTermiosFromFd ev (term_file (ReadLine_begin ed)) = Inr saved \<and>
           ReadLine fuel ev pf rpf es ed =
             Some (Inr
               (addError
                  (restore_error (ApplyToFd ev (Some saved)
                     (term_file ed3 @ [TermWrite [CHR 0x0A], ReaderQuit, TermWrite autowrap_on])))
                  (addError rerr lr),
                ed3\<lparr>term_file := term_file ed3 @
                       [TermWrite [CHR 0x0A], ReaderQuit, TermWrite autowrap_on,
                        TermSetAttr (Some saved)],
                    editorState := editorState_zero\<rparr>)) \<and>
           (\<exists>s. term_file ed3 = term_file ed2 @ [WriterRefresh s])))"
proof (intro conjI allI impI)
  fix err ed1
  assume a: "startReadLine ev (ReadLine_begin ed) = (Some err, ed1)"
  then show "ReadLine fuel ev pf rpf es ed = Some (Inr (LineRead_zero\<lparr>Err := Some err\<rparr>, ed1))"
    by (simp add: ReadLine_def)
  from startReadLine_failure [OF a]
  show "savedTermios (editorState ed1) = None"
    by (simp add: ReadLine_begin_def editorState_zero_def)
  from startReadLine_failure [OF a]
  show "term_file ed1 = term_file ed @ [WriterResetOldBuf, ReaderRun, TermGetAttr] \<or>
        (\<exists>raw. term_file ed1 =
            term_file ed @ [WriterResetOldBuf, ReaderRun, TermGetAttr, TermSetAttr (Some raw)])"
    by (simp add: ReadLine_begin_def)
next
  fix ed1 lr ed2 rerr ed3
  assume a: "startReadLine ev (ReadLine_begin ed) = (None, ed1) \<and>
        mainLoop fuel ev pf rpf es ed1 = Some (Inr (lr, ed2)) \<and>
        refresh ev (finishReadLine_reset ed2) = Inr (rerr, ed3)"
  then have s: "startReadLine ev (ReadLine_begin ed) = (None, ed1)"
    and m: "mainLoop fuel ev pf rpf es ed1 = Some (Inr (lr, ed2))"
    and r: "refresh ev (finishReadLine_reset ed2) = Inr (rerr, ed3)"
    by simp_all
  from startReadLine_success [OF s] obtain saved where
    sv: "NewTermiosFromFd ev (term_file (ReadLine_begin ed)) = Inr saved"
      "savedTermios (editorState ed1) = Some saved"
    by blast
  from mainLoop_termios [OF assms m] sv(2) have t2: "savedTermios (editorState ed2) = Some saved"
    by (simp add: same_termios_def)
  have rl: "ReadLine fuel ev pf rpf es ed =
             Some (Inr
               (addError
                  (restore_error (ApplyToFd ev (Some saved)
                     (term_file ed3 @ [TermWrite [CHR 0x0A], ReaderQuit, TermWrite autowrap_on])))
                  (addError rerr lr),
                ed3\<lparr>term_file := term_file ed3 @
                       [TermWrite [CHR 0x0A], ReaderQuit, TermWrite autowrap_on,
                        TermSetAttr (Some saved)],
                    editorState := editorState_zero\<rparr>))"
    using s m finishReadLine_steps [OF r, of addError lr] t2
    by (simp add: ReadLine_def restore_error_def addError_def split: option.splits)
  from refresh_frame [OF r] obtain x where
    "lexed_from (finishReadLine_reset ed2) x"
    "ed3 = x\<lparr>term_file := term_file (finishReadLine_reset ed2) @ [WriterRefresh (editorState x)]\<rparr>"
    by blast
  then have tf: "\<exists>s. term_file ed3 = term_file ed2 @ [WriterRefresh s]"
    by (simp add: finishReadLine_reset_def Let_def)
  from sv(1) rl tf
  show "\<exists>saved.
           NewTermiosFromFd ev (term_file (ReadLine_begin ed)) = Inr saved \<and>
           ReadLine fuel ev pf rpf es ed =
             Some (Inr
               (addError
                  (restore_error (ApplyToFd ev (Some saved)
                     (term_file ed3 @ [TermWrite [CHR 0x0A], ReaderQuit, TermWrite autowrap_on])))
                  (addError rerr lr),
                ed3\<lparr>term_file := term_file ed3 @
                       [TermWrite [CHR 0x0A], ReaderQuit, TermWrite autowrap_on,
                        TermSetAttr (Some saved)],
                    editorState := editorState_zero\<rparr>)) \<and>
           (\<exists>s. term_file ed3 = term_file ed2 @ [WriterRefresh s])"
    by blast
qed

lemma env_example_keeps_termios: "bindings_keep_termios env_example"
  unfolding bindings_keep_termios_def
  by (auto simp: env_example_def accept_line_def end_of_file_def insert_key_def set_nextAction_def
      insertAtDot_def Let_def split: if_splits)

lemma env_variants_keep_termios:
  "bindings_keep_termios env_setup_fails" "bindings_keep_termios env_render_fails"
  using env_example_keeps_termios
  by (simp_all add: bindings_keep_termios_def env_setup_fails_def env_render_fails_def)

theorem teardown_restores_iff_setup_witness:
  "bindings_keep_termios env_setup_fails \<and> bindings_keep_termios env_render_fails \<and>
   ReadLine 1 env_setup_fails no_prompt no_prompt [key_event Enter] (NewEditor None)
     = Some (Inr (\<lparr>Line = '''', EOF = False,
                   Err = Some (ErrMsg ''can't get terminal attribute: ENOTTY'')\<rparr>,
                 (NewEditor None)\<lparr>editorState := editorState_zero\<lparr>active := True\<rparr>,
                                  term_file := [WriterResetOldBuf, ReaderRun, TermGetAttr]\<rparr>)) \<and>
   last_operations (ReadLine 1 env_render_fails no_prompt no_prompt [] (NewEditor None))
     = Some (\<lparr>Line = '''', EOF = False, Err = Some (ErrCat (ErrMsg ''EIO'') (ErrMsg ''EIO''))\<rparr>,
             [TermWrite [CHR 0x0A], ReaderQuit, TermWrite autowrap_on, TermSetAttr (Some plain_termios)])"
proof -
  let ?ed = "NewEditor None"
  let ?lr = "\<lparr>Line = '''', EOF = False, Err = Some (ErrMsg ''EIO'')\<rparr>"
  define f1 where "f1 = snd (startReadLine env_setup_fails (ReadLine_begin ?ed))"
  define e1 where "e1 = snd (startReadLine env_render_fails (ReadLine_begin ?ed))"
  define e2 where "e2 = snd (projr (the (mainLoop 1 env_render_fails no_prompt no_prompt [] e1)))"
  define e3 where "e3 = snd (projr (refresh env_render_fails (finishReadLine_reset e2)))"
  have fs: "startReadLine env_setup_fails (ReadLine_begin ?ed)
      = (Some (ErrMsg ''can't get terminal attribute: ENOTTY''), f1)"
    unfolding f1_def by (simp add: env_setup_fails_def run_defs Let_def)
  have f1: "f1 = ?ed\<lparr>editorState := editorState_zero\<lparr>active := True\<rparr>,
                     term_file := [WriterResetOldBuf, ReaderRun, TermGetAttr]\<rparr>"
    unfolding f1_def by (simp add: env_setup_fails_def run_defs Let_def)
  from teardown_restores_iff_setup [OF env_variants_keep_termios(1), THEN conjunct1, rule_format, OF fs]
  have 1: "ReadLine 1 env_setup_fails no_prompt no_prompt [key_event Enter] ?ed
     = Some (Inr (\<lparr>Line = '''', EOF = False,
                   Err = Some (ErrMsg ''can't get terminal attribute: ENOTTY'')\<rparr>,
                 ?ed\<lparr>editorState := editorState_zero\<lparr>active := True\<rparr>,
                     term_file := [WriterResetOldBuf, ReaderRun, TermGetAttr]\<rparr>))"
    unfolding f1 by (simp add: LineRead_zero_def)
  have s: "startReadLine env_render_fails (ReadLine_begin ?ed) = (None, e1)"
    unfolding e1_def by (simp add: env_render_fails_def run_defs Let_def)
  have m: "mainLoop 1 env_render_fails no_prompt no_prompt [] e1 = Some (Inr (?lr, e2))"
    unfolding e2_def e1_def by (simp add: env_render_fails_def run_defs Let_def)
  have r: "refresh env_render_fails (finishReadLine_reset e2) = Inr (Some (ErrMsg ''EIO''), e3)"
    unfolding e3_def e2_def e1_def by (simp add: env_render_fails_def run_defs Let_def)
  have n: "NewTermiosFromFd env_render_fails (term_file (ReadLine_begin ?ed)) = Inr plain_termios"
    by (simp add: env_render_fails_def env_example_def)
  have ap: "ApplyToFd env_render_fails t tr = None" for t tr
    by (simp add: env_render_fails_def env_example_def)
  from teardown_restores_iff_setup [OF env_variants_keep_termios(2), THEN conjunct2, rule_format,
      OF conjI [OF s conjI [OF m r]]] n
  have "ReadLine 1 env_render_fails no_prompt no_prompt [] ?ed =
      Some (Inr (addError (restore_error None) (addError (Some (ErrMsg ''EIO'')) ?lr),
                 e3\<lparr>term_file := term_file e3 @
                       [TermWrite [CHR 0x0A], ReaderQuit, TermWrite autowrap_on,
                        TermSetAttr (Some plain_termios)],
                    editorState := editorState_zero\<rparr>))"
    by (auto simp: ap)
  then have 2: "last_operations (ReadLine 1 env_render_fails no_prompt no_prompt [] ?ed)
     = Some (\<lparr>Line = '''', EOF = False, Err = Some (ErrCat (ErrMsg ''EIO'') (ErrMsg ''EIO''))\<rparr>,
             [TermWrite [CHR 0x0A], ReaderQuit, TermWrite autowrap_on, TermSetAttr (Some plain_termios)])"
    by (simp add: last_operations_def restore_error_def addError_def)
  from env_variants_keep_termios 1 2 show ?thesis by simp
qed

section \<open>The result of a read\<close>

text \<open>
  Claim C9 at a failing input. Enter accepts the line \<open>"ls"\<close> and the terminal cannot be
  restored: \<open>ReadLine\<close> returns a \<open>LineRead\<close> with both \<open>Line\<close> and \<open>Err\<close> set, having appended
  the line to the session history.
\<close>

theorem ReadLine_line_and_error:
  "outcome (ReadLine 1 env_restore_fails no_prompt no_prompt
      [key_event (Key 108 0), key_event (Key 115 0), key_event Enter] (NewEditor None))
   = Some (\<lparr>Line = ''ls'', EOF = False,
            Err = Some (ErrMsg ''can't restore terminal attribute: EIO'')\<rparr>, [''ls''], None)"
  by (simp add: outcome_def env_restore_fails_def run_defs Let_def)

end
